theory Spec2Isabelle
  imports Complex_Main
begin

section \<open>Jigsaw generation logic of \<^verbatim>\<open>src/components/PuzzleBoard.tsx\<close>\<close>

text \<open>
  The development embeds \<^verbatim>\<open>drawSide\<close>, \<^verbatim>\<open>createPieceCanvas\<close> and
  \<^verbatim>\<open>createJigsawPieces\<close>. Pixel counts and loop counters are natural numbers
  and the piece count is an integer. Where the rounding of JavaScript numbers or
  the conversions of the DOM decide what the code does, they are written out:
  \<^verbatim>\<open>Math.sqrt\<close> rounds to the nearest double, a canvas dimension is an
  integer, and a division by zero yields no finite number. The coordinates
  handed to the context are real numbers.
\<close>

subsection \<open>Data\<close>

text \<open>\<^verbatim>\<open>enum JigsawSide { KNOB, SOCKET }\<close>\<close>

datatype JigsawSide = KNOB | SOCKET

text \<open>The union type \<^verbatim>\<open>JigsawSide | 'FLAT'\<close> of a side of a piece.\<close>

datatype Side = Joint JigsawSide | FLAT

text \<open>
  \<^verbatim>\<open>interface PieceShape\<close>. The fields are \<^verbatim>\<open>top\<close>, \<^verbatim>\<open>right\<close>,
  \<^verbatim>\<open>bottom\<close>, \<^verbatim>\<open>left\<close> in the source; they carry a suffix here because
  \<open>top\<close> is a constant of HOL.
\<close>

record PieceShape =
  top_side :: Side
  right_side :: Side
  bottom_side :: Side
  left_side :: Side

text \<open>
  The decoded \<^verbatim>\<open>HTMLImageElement\<close>: only its pixel dimensions are read by the
  slicing code.
\<close>

record HTMLImageElement =
  width :: nat
  height :: nat

text \<open>A JavaScript \<^verbatim>\<open>Error\<close> with its message.\<close>

datatype error = Error string

text \<open>
  What the code cannot control: the successive results of \<^verbatim>\<open>Math.random()\<close>
  and whether \<^verbatim>\<open>getContext('2d')\<close> yields a context on the k-th canvas
  created. The world counts the calls made so far.
\<close>

record Env =
  random :: "nat \<Rightarrow> real"
  getContext :: "nat \<Rightarrow> bool"

record World =
  rand_calls :: nat
  canvases :: nat

text \<open>
  A number passed to the canvas that may fail to be finite: \<open>None\<close> stands for
  \<^verbatim>\<open>NaN\<close>, the result of \<^verbatim>\<open>0 / 0\<close>.
\<close>

type_synonym number = "real option"

text \<open>The calls made on a 2D context, in order.\<close>

datatype canvas_op =
    Translate real real
  | BeginPath
  | MoveTo real real
  | LineTo real real
  | BezierCurveTo number number number number real real
  | ClosePath
  | Save
  | Clip
  | DrawImage HTMLImageElement real real real real real real real real
  | Restore
  | StrokeStyle string
  | LineWidth real
  | Stroke

text \<open>
  A canvas: its dimensions (\<^verbatim>\<open>HTMLCanvasElement.width\<close> and \<^verbatim>\<open>height\<close> are
  of type \<^verbatim>\<open>unsigned long\<close>) and the calls made on its context. The PNG data
  URL returned by \<^verbatim>\<open>toDataURL\<close> is a function of exactly this, so the canvas
  itself stands for the piece image.
\<close>

record Canvas =
  canvas_width :: nat
  canvas_height :: nat
  calls :: "canvas_op list"

text \<open>
  Assigning a number to \<^verbatim>\<open>canvas.width\<close> or \<^verbatim>\<open>canvas.height\<close>. The number
  is converted to \<^verbatim>\<open>unsigned long\<close>: truncated towards zero and reduced modulo
  \<open>2 ^ 32\<close>. The attribute takes this value when it is at most \<open>2147483647\<close>
  and its default (300 for the width, 150 for the height) otherwise.
\<close>

definition to_unsigned_long :: "real \<Rightarrow> nat" where
  "to_unsigned_long x = nat ((if 0 \<le> x then \<lfloor>x\<rfloor> else \<lceil>x\<rceil>) mod 2 ^ 32)"

definition set_dimension :: "nat \<Rightarrow> real \<Rightarrow> nat" where
  "set_dimension dflt x =
     (let v = to_unsigned_long x in if v \<le> 2147483647 then v else dflt)"

subsection \<open>drawSide\<close>

definition KNOB_RATIO :: real where
  "KNOB_RATIO = 0.2"

text \<open>Division of JavaScript numbers where the divisor may be zero.\<close>

definition js_div :: "real \<Rightarrow> real \<Rightarrow> number" where
  "js_div a b = (if b = 0 then None else Some (a / b))"

text \<open>\<^verbatim>\<open>p + unit * curveOffset\<close>, where \<open>unit\<close> may be \<^verbatim>\<open>NaN\<close>.\<close>

definition offset_by :: "real \<Rightarrow> number \<Rightarrow> real \<Rightarrow> number" where
  "offset_by p unit curveOffset = map_option (\<lambda>u. p + u * curveOffset) unit"

definition drawSide :: "real \<Rightarrow> real \<Rightarrow> real \<Rightarrow> real \<Rightarrow> Side \<Rightarrow> canvas_op list" where
  "drawSide startX startY endX endY shape =
     (case shape of
        FLAT \<Rightarrow> [LineTo endX endY]
      | Joint j \<Rightarrow>
          (let dx = endX - startX;
               dy = endY - startY;
               normX = dy;
               normY = - dx;
               normLen = sqrt (normX * normX + normY * normY);
               unitNormX = js_div normX normLen;
               unitNormY = js_div normY normLen;
               knobSize = normLen * KNOB_RATIO;
               curveOffset = knobSize * (if j = KNOB then 1 else - 1);
               knobBaseRatio = 0.6;
               p1Ratio = (1 - knobBaseRatio) / 2;
               p2Ratio = 1 - p1Ratio;
               p1x = startX + dx * p1Ratio;
               p1y = startY + dy * p1Ratio;
               p2x = startX + dx * p2Ratio;
               p2y = startY + dy * p2Ratio;
               cp1x = offset_by p1x unitNormX curveOffset;
               cp1y = offset_by p1y unitNormY curveOffset;
               cp2x = offset_by p2x unitNormX curveOffset;
               cp2y = offset_by p2y unitNormY curveOffset
           in [LineTo p1x p1y,
               BezierCurveTo cp1x cp1y cp2x cp2y p2x p2y,
               LineTo endX endY]))"

subsection \<open>createPieceCanvas\<close>

text \<open>
  Everything \<^verbatim>\<open>createPieceCanvas\<close> does to its canvas, given that the context
  was obtained. \<^verbatim>\<open>drawImage\<close> reads \<^verbatim>\<open>canvas.width\<close> and
  \<^verbatim>\<open>canvas.height\<close> back from the canvas.
\<close>

definition renderPiece ::
  "HTMLImageElement \<Rightarrow> real \<Rightarrow> real \<Rightarrow> real \<Rightarrow> real \<Rightarrow> PieceShape \<Rightarrow> Canvas" where
  "renderPiece sourceImage sourceX sourceY pieceWidth pieceHeight shape =
     (let canvasPaddingX = pieceWidth * KNOB_RATIO;
          canvasPaddingY = pieceHeight * KNOB_RATIO;
          cw = set_dimension 300 (pieceWidth + 2 * canvasPaddingX);
          ch = set_dimension 150 (pieceHeight + 2 * canvasPaddingY)
      in \<lparr>canvas_width = cw, canvas_height = ch,
          calls =
            [Translate canvasPaddingX canvasPaddingY, BeginPath, MoveTo 0 0]
            @ drawSide 0 0 pieceWidth 0 (top_side shape)
            @ drawSide pieceWidth 0 pieceWidth pieceHeight (right_side shape)
            @ drawSide pieceWidth pieceHeight 0 pieceHeight (bottom_side shape)
            @ drawSide 0 pieceHeight 0 0 (left_side shape)
            @ [ClosePath, Save, Clip,
               DrawImage sourceImage
                 (sourceX - canvasPaddingX) (sourceY - canvasPaddingY) (real cw) (real ch)
                 (- canvasPaddingX) (- canvasPaddingY) (real cw) (real ch),
               Restore,
               StrokeStyle ''rgba(0, 0, 0, 0.6)'', LineWidth 1.5, Stroke]\<rparr>)"

text \<open>
  \<^verbatim>\<open>createPieceCanvas\<close>: a canvas is created, and the call throws when no 2D
  context can be obtained for it.
\<close>

definition createPieceCanvas ::
  "Env \<Rightarrow> World \<Rightarrow> HTMLImageElement \<Rightarrow> real \<Rightarrow> real \<Rightarrow> real \<Rightarrow> real \<Rightarrow> PieceShape
     \<Rightarrow> (error + Canvas) \<times> World" where
  "createPieceCanvas env w sourceImage sourceX sourceY pieceWidth pieceHeight shape =
     (let w' = w\<lparr>canvases := Suc (canvases w)\<rparr>
      in if \<not> getContext env (canvases w)
         then (Inl (Error ''Could not get canvas context.''), w')
         else (Inr (renderPiece sourceImage sourceX sourceY pieceWidth pieceHeight shape), w'))"

subsection \<open>createJigsawPieces\<close>

text \<open>
  \<^verbatim>\<open>Math.sqrt(pieceCount)\<close> followed by \<^verbatim>\<open>Number.isInteger\<close>, for a piece
  count that is an integer (as a JavaScript number, one of at most 53
  significant bits). \<^verbatim>\<open>Math.sqrt\<close> returns the double nearest to the root
  (53 significant bits, ties to even), so the test can succeed on a count that
  is not a square. First the integer part of a root, and the \<open>e\<close> with
  \<open>4 ^ e \<le> n < 4 ^ (e + 1)\<close>, for which the root of \<open>n\<close> lies between \<open>2 ^ e\<close>
  and \<open>2 ^ (e + 1)\<close>:
\<close>

fun floor_sqrt :: "nat \<Rightarrow> nat" where
  "floor_sqrt n =
     (if n < 2 then n
      else (let r = 2 * floor_sqrt (n div 4)
            in if (r + 1) * (r + 1) \<le> n then r + 1 else r))"

fun log4 :: "nat \<Rightarrow> nat" where
  "log4 n = (if n < 4 then 0 else Suc (log4 (n div 4)))"

text \<open>
  The integer nearest to the root of \<open>P\<close>; the root of an integer is never
  half-way between two integers.
\<close>

definition nearest_sqrt :: "nat \<Rightarrow> nat" where
  "nearest_sqrt P = (let t = floor_sqrt P in if P \<le> t * t + t then t else t + 1)"

text \<open>
  \<open>None\<close> is the rejected case: a negative count has the root \<^verbatim>\<open>NaN\<close>, and
  otherwise the rounded root is not an integer. The root of a square is
  returned exactly. For any other count, the doubles between \<open>2 ^ e\<close> and
  \<open>2 ^ (e + 1)\<close> are the multiples of \<open>2 ^ (e - 52)\<close>. With \<open>e \<le> 52\<close> the one
  nearest to the root is \<open>m / 2 ^ k\<close>, where \<open>k = 52 - e\<close> and \<open>m\<close> is the integer
  nearest to the root of \<open>n * 4 ^ k\<close>; it is an integer when \<open>2 ^ k\<close> divides
  \<open>m\<close>. With \<open>e > 52\<close> all of them are integers, and the one nearest to the root
  is \<open>m * 2 ^ j\<close>, where \<open>j = e - 52\<close> and \<open>m\<close> is the integer nearest to the
  root divided by \<open>2 ^ j\<close>, the even one of two that are equally near.
\<close>

definition sqrt_integer :: "int \<Rightarrow> nat option" where
  "sqrt_integer pieceCount =
     (if pieceCount < 0 then None
      else (let n = nat pieceCount; s = floor_sqrt n in
            if s * s = n then Some s
            else (let e = log4 n in
                  if e \<le> 52 then
                    (let k = 52 - e; m = nearest_sqrt (n * 4 ^ k)
                     in if 2 ^ k dvd m then Some (m div 2 ^ k) else None)
                  else
                    (let j = e - 52; t = floor_sqrt (n div 4 ^ j);
                         m = (if 4 * n < (2 * t + 1) * (2 * t + 1) * 4 ^ j then t
                              else if (2 * t + 1) * (2 * t + 1) * 4 ^ j < 4 * n then t + 1
                              else if even t then t else t + 1)
                     in Some (m * 2 ^ j)))))"

text \<open>
  \<^verbatim>\<open>Array.from({ length: n }, () => Math.random() > 0.5 ? KNOB : SOCKET)\<close>: the
  callback runs once per index, in order. A negative length gives the empty
  array, as the truncated subtraction on \<open>nat\<close> does for \<^verbatim>\<open>gridSize - 1\<close>.
\<close>

fun randomRow :: "Env \<Rightarrow> nat \<Rightarrow> World \<Rightarrow> JigsawSide list \<times> World" where
  "randomRow env 0 w = ([], w)"
| "randomRow env (Suc n) w =
     (let j = (if random env (rand_calls w) > 0.5 then KNOB else SOCKET);
          (js, w') = randomRow env n (w\<lparr>rand_calls := Suc (rand_calls w)\<rparr>)
      in (j # js, w'))"

fun randomRows :: "Env \<Rightarrow> nat \<Rightarrow> nat \<Rightarrow> World \<Rightarrow> JigsawSide list list \<times> World" where
  "randomRows env 0 cols w = ([], w)"
| "randomRows env (Suc n) cols w =
     (let (r, w') = randomRow env cols w;
          (rs, w'') = randomRows env n cols w'
      in (r # rs, w''))"

text \<open>The constants of \<^verbatim>\<open>img.onload\<close> that the two loops read.\<close>

record Locals =
  img :: HTMLImageElement
  gridSize :: nat
  horizontalJoints :: "JigsawSide list list"
  verticalJoints :: "JigsawSide list list"
  basePieceW :: nat
  basePieceH :: nat
  remainderW :: nat
  remainderH :: nat

text \<open>
  The object literal \<^verbatim>\<open>shape\<close> built for the cell in row \<open>y\<close>, column \<open>x\<close>.
  The loops only reach it with \<open>x < gridSize\<close> and \<open>y < gridSize\<close>, where
  \<^verbatim>\<open>gridSize - 1\<close> is not negative and every element read lies inside the
  joint arrays (their dimensions are \<open>horizontalJoints_dims\<close> and
  \<open>verticalJoints_dims\<close> below).
\<close>

definition shape :: "Locals \<Rightarrow> nat \<Rightarrow> nat \<Rightarrow> PieceShape" where
  "shape L y x =
     \<lparr>top_side =
        (if y = 0 then FLAT
         else Joint (if verticalJoints L ! (y - 1) ! x = KNOB then SOCKET else KNOB)),
      right_side =
        (if x = gridSize L - 1 then FLAT else Joint (horizontalJoints L ! y ! x)),
      bottom_side =
        (if y = gridSize L - 1 then FLAT else Joint (verticalJoints L ! y ! x)),
      left_side =
        (if x = 0 then FLAT
         else Joint (if horizontalJoints L ! y ! (x - 1) = KNOB then SOCKET else KNOB))\<rparr>"

text \<open>
  \<^verbatim>\<open>const pieceW = basePieceW + (x < remainderW ? 1 : 0)\<close> and
  \<^verbatim>\<open>const pieceH = basePieceH + (y < remainderH ? 1 : 0)\<close>.
\<close>

definition pieceW :: "Locals \<Rightarrow> nat \<Rightarrow> nat" where
  "pieceW L x = basePieceW L + (if x < remainderW L then 1 else 0)"

definition pieceH :: "Locals \<Rightarrow> nat \<Rightarrow> nat" where
  "pieceH L y = basePieceH L + (if y < remainderH L then 1 else 0)"

text \<open>
  The inner loop over \<open>x\<close>, from its current state. A throw of
  \<^verbatim>\<open>createPieceCanvas\<close> is caught and ends the handler with a rejection.
\<close>

function innerLoop ::
  "Env \<Rightarrow> Locals \<Rightarrow> nat \<Rightarrow> nat \<Rightarrow> nat \<Rightarrow> nat \<Rightarrow> nat \<Rightarrow> Canvas list \<Rightarrow> World
     \<Rightarrow> (error + Canvas list) \<times> World" where
  "innerLoop env L y ph currentSourceY x currentSourceX pieces w =
     (if x < gridSize L then
        (let pw = pieceW L x in
         case createPieceCanvas env w (img L)
                (real currentSourceX) (real currentSourceY) (real pw) (real ph)
                (shape L y x) of
           (Inl err, w') \<Rightarrow> (Inl err, w')
         | (Inr pieceImage, w') \<Rightarrow>
             innerLoop env L y ph currentSourceY
               (x + 1) (currentSourceX + pw) (pieces @ [pieceImage]) w')
      else (Inr pieces, w))"
  by pat_completeness auto
termination
  by (relation "measure (\<lambda>(env, L, y, ph, currentSourceY, x, r). gridSize L - x)") auto

text \<open>The outer loop over \<open>y\<close>.\<close>

function outerLoop ::
  "Env \<Rightarrow> Locals \<Rightarrow> nat \<Rightarrow> nat \<Rightarrow> Canvas list \<Rightarrow> World \<Rightarrow> (error + Canvas list) \<times> World" where
  "outerLoop env L y currentSourceY pieces w =
     (if y < gridSize L then
        (let ph = pieceH L y in
         case innerLoop env L y ph currentSourceY 0 0 pieces w of
           (Inl err, w') \<Rightarrow> (Inl err, w')
         | (Inr pieces', w') \<Rightarrow> outerLoop env L (y + 1) (currentSourceY + ph) pieces' w')
      else (Inr pieces, w))"
  by pat_completeness auto
termination
  by (relation "measure (\<lambda>(env, L, y, r). gridSize L - y)") auto

text \<open>
  The constants computed by \<^verbatim>\<open>img.onload\<close> once the grid size \<open>n\<close> is
  accepted: the two joint arrays (horizontal joints first, as in the source) and
  the partition. With \<open>n = 0\<close> the divisions give no finite number in the
  source; no loop iteration reads them.
\<close>

definition onload_locals :: "Env \<Rightarrow> World \<Rightarrow> HTMLImageElement \<Rightarrow> nat \<Rightarrow> Locals \<times> World" where
  "onload_locals env w im n =
     (let (hj, w1) = randomRows env n (n - 1) w;
          (vj, w2) = randomRows env (n - 1) n w1
      in (\<lparr>img = im, gridSize = n,
           horizontalJoints = hj, verticalJoints = vj,
           basePieceW = width im div n,
           basePieceH = height im div n,
           remainderW = width im mod n,
           remainderH = height im mod n\<rparr>, w2))"

text \<open>
  \<^verbatim>\<open>createJigsawPieces\<close>. The argument \<open>decoded\<close> is the outcome of decoding
  \<^verbatim>\<open>imageBase64\<close>: \<open>None\<close> when \<^verbatim>\<open>img.onerror\<close> fires. \<open>Inl\<close> is a
  rejected promise, \<open>Inr\<close> a resolved one.
\<close>

definition createJigsawPieces ::
  "Env \<Rightarrow> World \<Rightarrow> HTMLImageElement option \<Rightarrow> int \<Rightarrow> (error + Canvas list) \<times> World" where
  "createJigsawPieces env w decoded pieceCount =
     (case decoded of
        None \<Rightarrow> (Inl (Error ''Failed to load image for puzzle generation.''), w)
      | Some im \<Rightarrow>
          (case sqrt_integer pieceCount of
             None \<Rightarrow> (Inl (Error ''Piece count must be a perfect square.''), w)
           | Some n \<Rightarrow>
               (let (L, w2) = onload_locals env w im n
                in outerLoop env L 0 0 [] w2)))"

subsection \<open>The cell of row \<open>y\<close> and column \<open>x\<close>\<close>

text \<open>
  The source origin of a cell as the loops accumulate it, and the canvas that a
  successful \<^verbatim>\<open>createPieceCanvas\<close> returns for the cell.
\<close>

definition sourceX :: "Locals \<Rightarrow> nat \<Rightarrow> nat" where
  "sourceX L x = (\<Sum>j<x. pieceW L j)"

definition sourceY :: "Locals \<Rightarrow> nat \<Rightarrow> nat" where
  "sourceY L y = (\<Sum>j<y. pieceH L j)"

definition cell :: "Locals \<Rightarrow> nat \<Rightarrow> nat \<Rightarrow> Canvas" where
  "cell L y x =
     renderPiece (img L) (real (sourceX L x)) (real (sourceY L y))
       (real (pieceW L x)) (real (pieceH L y)) (shape L y x)"

text \<open>The pixels of the source rectangle of a cell.\<close>

definition sourceRect :: "Locals \<Rightarrow> nat \<Rightarrow> nat \<Rightarrow> (nat \<times> nat) set" where
  "sourceRect L y x =
     {sourceX L x ..< sourceX L x + pieceW L x} \<times> {sourceY L y ..< sourceY L y + pieceH L y}"

text \<open>A whole row, started as the outer loop starts it.\<close>

definition rowFrom :: "Locals \<Rightarrow> nat \<Rightarrow> nat \<Rightarrow> nat \<Rightarrow> Canvas list" where
  "rowFrom L csy y0 y =
     map (\<lambda>x. renderPiece (img L) (real (sourceX L x)) (real (csy + (\<Sum>j=y0..<y. pieceH L j)))
                 (real (pieceW L x)) (real (pieceH L y)) (shape L y x)) [0..<gridSize L]"

subsection \<open>Concrete inputs\<close>

text \<open>
  An environment whose random numbers alternate between 0.75 and 0.25 and where
  every canvas yields a context, a fresh world, and an 800 by 800 image.
\<close>

definition env0 :: Env where
  "env0 = \<lparr>random = (\<lambda>k. if even k then 0.75 else 0.25), getContext = (\<lambda>k. True)\<rparr>"

definition w0 :: World where
  "w0 = \<lparr>rand_calls = 0, canvases = 0\<rparr>"

definition im800 :: HTMLImageElement where
  "im800 = \<lparr>width = 800, height = 800\<rparr>"

text \<open>An environment where the third canvas created yields no context.\<close>

definition env1 :: Env where
  "env1 = \<lparr>random = (\<lambda>k. if even k then 0.75 else 0.25), getContext = (\<lambda>k. k \<noteq> 2)\<rparr>"

text \<open>An 802 by 802 image and a single pixel.\<close>

definition im802 :: HTMLImageElement where
  "im802 = \<lparr>width = 802, height = 802\<rparr>"

definition im1 :: HTMLImageElement where
  "im1 = \<lparr>width = 1, height = 1\<rparr>"

section \<open>The loops\<close>

declare innerLoop.simps [simp del] outerLoop.simps [simp del]

subsection \<open>The inner loop\<close>

lemma innerLoop_ok:
  assumes "\<forall>k<gridSize L - x. getContext env (canvases w + k)"
  shows "innerLoop env L y ph csy x csx pieces w =
     (Inr (pieces @ map (\<lambda>k. renderPiece (img L) (real (csx + (\<Sum>j=x..<k. pieceW L j))) (real csy)
                               (real (pieceW L k)) (real ph) (shape L y k)) [x..<gridSize L]),
      w\<lparr>canvases := canvases w + (gridSize L - x)\<rparr>)"
  using assms
proof (induction env L y ph csy x csx pieces w rule: innerLoop.induct)
  case (1 env L y ph csy x csx pieces w)
  show ?case
  proof (cases "x < gridSize L")
    case False
    then show ?thesis by (simp add: innerLoop.simps [of env L y ph csy x])
  next
    case True
    let ?w' = "w\<lparr>canvases := Suc (canvases w)\<rparr>"
    let ?R = "\<lambda>sx k. renderPiece (img L) (real sx) (real csy) (real (pieceW L k)) (real ph) (shape L y k)"
    from True "1.prems" have g0: "getContext env (canvases w)"
      by (metis add.right_neutral zero_less_diff)
    have cp: "createPieceCanvas env w (img L) (real csx) (real csy) (real (pieceW L x)) (real ph) (shape L y x)
                = (Inr (?R csx x), ?w')"
      using g0 by (simp add: createPieceCanvas_def)
    have pre: "\<forall>k<gridSize L - (x + 1). getContext env (canvases ?w' + k)"
    proof (intro allI impI)
      fix k assume "k < gridSize L - (x + 1)"
      then have "Suc k < gridSize L - x" by simp
      with "1.prems" have "getContext env (canvases w + Suc k)" by blast
      then show "getContext env (canvases ?w' + k)" by simp
    qed
    have ih: "innerLoop env L y ph csy (x + 1) (csx + pieceW L x) (pieces @ [?R csx x]) ?w' =
        (Inr ((pieces @ [?R csx x]) @
              map (\<lambda>k. ?R (csx + pieceW L x + (\<Sum>j=x+1..<k. pieceW L j)) k) [x+1..<gridSize L]),
         ?w'\<lparr>canvases := canvases ?w' + (gridSize L - (x + 1))\<rparr>)"
      by (rule "1.IH" [OF True refl cp [symmetric] refl pre])
    have step: "innerLoop env L y ph csy x csx pieces w
          = innerLoop env L y ph csy (x + 1) (csx + pieceW L x) (pieces @ [?R csx x]) ?w'"
      using True cp by (simp add: innerLoop.simps [of env L y ph csy x] Let_def)
    have lst: "[x..<gridSize L] = x # [x+1..<gridSize L]"
      using True by (simp add: upt_conv_Cons)
    have sums: "csx + pieceW L x + (\<Sum>j=x+1..<k. pieceW L j) = csx + (\<Sum>j=x..<k. pieceW L j)"
      if "k \<in> set [x+1..<gridSize L]" for k
      using that by (simp add: sum.atLeast_Suc_lessThan)
    have maps: "map (\<lambda>k. ?R (csx + pieceW L x + (\<Sum>j=x+1..<k. pieceW L j)) k) [x+1..<gridSize L]
              = map (\<lambda>k. ?R (csx + (\<Sum>j=x..<k. pieceW L j)) k) [x+1..<gridSize L]"
      by (rule map_cong [OF refl]) (simp only: sums)
    have w_eq: "?w'\<lparr>canvases := canvases ?w' + (gridSize L - (x + 1))\<rparr>
                 = w\<lparr>canvases := canvases w + (gridSize L - x)\<rparr>"
      using True by simp
    show ?thesis
      unfolding step ih lst w_eq maps by simp
  qed
qed

lemma innerLoop_fail:
  assumes "k < gridSize L - x"
    and "\<forall>j<k. getContext env (canvases w + j)"
    and "\<not> getContext env (canvases w + k)"
  shows "innerLoop env L y ph csy x csx pieces w =
     (Inl (Error ''Could not get canvas context.''), w\<lparr>canvases := canvases w + k + 1\<rparr>)"
  using assms
proof (induction k arbitrary: x csx pieces w)
  case 0
  then have "x < gridSize L" and "\<not> getContext env (canvases w)" by simp_all
  then show ?case
    by (simp add: innerLoop.simps [of env L y ph csy x] createPieceCanvas_def Let_def)
next
  case (Suc k)
  let ?w' = "w\<lparr>canvases := Suc (canvases w)\<rparr>"
  from Suc.prems have x: "x < gridSize L" and g0: "getContext env (canvases w)"
    by auto
  have a: "k < gridSize L - (x + 1)" using Suc.prems(1) by simp
  have b: "\<forall>j<k. getContext env (canvases ?w' + j)"
  proof (intro allI impI)
    fix j assume "j < k"
    then have "Suc j < Suc k" by simp
    with Suc.prems(2) have "getContext env (canvases w + Suc j)" by blast
    then show "getContext env (canvases ?w' + j)" by simp
  qed
  have c: "\<not> getContext env (canvases ?w' + k)" using Suc.prems(3) by simp
  show ?case
    using x g0 Suc.IH [OF a b c]
    by (simp add: innerLoop.simps [of env L y ph csy x] createPieceCanvas_def Let_def)
qed

lemma innerLoop_row:
  assumes "\<forall>k<gridSize L. getContext env (canvases w + k)"
  shows "innerLoop env L y (pieceH L y) csy 0 0 pieces w =
     (Inr (pieces @ rowFrom L csy y y), w\<lparr>canvases := canvases w + gridSize L\<rparr>)"
  using innerLoop_ok [of L 0 env w y "pieceH L y" csy 0 pieces] assms
  by (simp add: rowFrom_def sourceX_def atLeast0LessThan)

subsection \<open>The outer loop\<close>

lemma outerLoop_ok:
  assumes "\<forall>k<(gridSize L - y) * gridSize L. getContext env (canvases w + k)"
  shows "outerLoop env L y csy pieces w =
     (Inr (pieces @ concat (map (rowFrom L csy y) [y..<gridSize L])),
      w\<lparr>canvases := canvases w + (gridSize L - y) * gridSize L\<rparr>)"
  using assms
proof (induction env L y csy pieces w rule: outerLoop.induct)
  case (1 env L y csy pieces w)
  show ?case
  proof (cases "y < gridSize L")
    case False
    then show ?thesis by (simp add: outerLoop.simps [of env L y])
  next
    case True
    let ?N = "gridSize L"
    let ?ph = "pieceH L y"
    let ?w' = "w\<lparr>canvases := canvases w + ?N\<rparr>"
    let ?row = "rowFrom L csy y y"
    have split: "(?N - y) * ?N = ?N + (?N - (y + 1)) * ?N"
      using True by (metis Suc_diff_Suc Suc_eq_plus1 mult_Suc)
    have first: "\<forall>k<?N. getContext env (canvases w + k)"
      using "1.prems" split by simp
    have inner: "innerLoop env L y ?ph csy 0 0 pieces w = (Inr (pieces @ ?row), ?w')"
      by (rule innerLoop_row [OF first])
    have pre: "\<forall>k<(?N - (y + 1)) * ?N. getContext env (canvases ?w' + k)"
    proof (intro allI impI)
      fix k assume "k < (?N - (y + 1)) * ?N"
      then have "?N + k < (?N - y) * ?N" using split by simp
      with "1.prems" have "getContext env (canvases w + (?N + k))" by blast
      then show "getContext env (canvases ?w' + k)" by (simp add: add.assoc)
    qed
    have ih: "outerLoop env L (y + 1) (csy + ?ph) (pieces @ ?row) ?w' =
       (Inr ((pieces @ ?row) @ concat (map (rowFrom L (csy + ?ph) (y + 1)) [y+1..<?N])),
        ?w'\<lparr>canvases := canvases ?w' + (?N - (y + 1)) * ?N\<rparr>)"
      by (rule "1.IH" [OF True refl inner [symmetric] refl pre])
    have step: "outerLoop env L y csy pieces w =
                outerLoop env L (y + 1) (csy + ?ph) (pieces @ ?row) ?w'"
      using True inner by (simp add: outerLoop.simps [of env L y] Let_def)
    have lst: "[y..<?N] = y # [y+1..<?N]"
      using True by (simp add: upt_conv_Cons)
    have cells: "rowFrom L (csy + ?ph) (y + 1) r = rowFrom L csy y r"
      if "r \<in> set [y+1..<?N]" for r
    proof -
      have "csy + ?ph + (\<Sum>j=y+1..<r. pieceH L j) = csy + (\<Sum>j=y..<r. pieceH L j)"
        using that by (simp add: sum.atLeast_Suc_lessThan)
      then show ?thesis unfolding rowFrom_def by (simp only:)
    qed
    have rows: "map (rowFrom L (csy + ?ph) (y + 1)) [y+1..<?N] = map (rowFrom L csy y) [y+1..<?N]"
      by (rule map_cong [OF refl]) (simp only: cells)
    have w_eq: "?w'\<lparr>canvases := canvases ?w' + (?N - (y + 1)) * ?N\<rparr>
                 = w\<lparr>canvases := canvases w + (?N - y) * ?N\<rparr>"
      using split by simp
    show ?thesis
      unfolding step ih lst w_eq rows by simp
  qed
qed

lemma outerLoop_fail:
  assumes "k < (gridSize L - y) * gridSize L"
    and "\<forall>j<k. getContext env (canvases w + j)"
    and "\<not> getContext env (canvases w + k)"
  shows "outerLoop env L y csy pieces w =
     (Inl (Error ''Could not get canvas context.''), w\<lparr>canvases := canvases w + k + 1\<rparr>)"
  using assms
proof (induction env L y csy pieces w arbitrary: k rule: outerLoop.induct)
  case (1 env L y csy pieces w)
  let ?N = "gridSize L"
  let ?ph = "pieceH L y"
  have y: "y < ?N"
  proof (rule ccontr)
    assume "\<not> y < ?N"
    then have "(?N - y) * ?N = 0" by simp
    with "1.prems"(1) show False by simp
  qed
  have split: "(?N - y) * ?N = ?N + (?N - (y + 1)) * ?N"
    using y by (metis Suc_diff_Suc Suc_eq_plus1 mult_Suc)
  show ?case
  proof (cases "k < ?N")
    case True
    then have "k < ?N - 0" by simp
    from innerLoop_fail [OF this "1.prems"(2,3)]
    have "innerLoop env L y ?ph csy 0 0 pieces w =
            (Inl (Error ''Could not get canvas context.''), w\<lparr>canvases := canvases w + k + 1\<rparr>)" .
    then show ?thesis using y by (simp add: outerLoop.simps [of env L y] Let_def)
  next
    case False
    let ?w' = "w\<lparr>canvases := canvases w + ?N\<rparr>"
    let ?row = "rowFrom L csy y y"
    have first: "\<forall>j<?N. getContext env (canvases w + j)"
      using "1.prems"(2) False by simp
    have inner: "innerLoop env L y ?ph csy 0 0 pieces w = (Inr (pieces @ ?row), ?w')"
      by (rule innerLoop_row [OF first])
    have a: "k - ?N < (?N - (y + 1)) * ?N"
      using "1.prems"(1) False split by simp
    have b: "\<forall>j<k - ?N. getContext env (canvases ?w' + j)"
    proof (intro allI impI)
      fix j assume "j < k - ?N"
      then have "?N + j < k" by simp
      with "1.prems"(2) have "getContext env (canvases w + (?N + j))" by blast
      then show "getContext env (canvases ?w' + j)" by (simp add: add.assoc)
    qed
    have c: "\<not> getContext env (canvases ?w' + (k - ?N))"
      using "1.prems"(3) False by simp
    have ih: "outerLoop env L (y + 1) (csy + ?ph) (pieces @ ?row) ?w' =
       (Inl (Error ''Could not get canvas context.''), ?w'\<lparr>canvases := canvases ?w' + (k - ?N) + 1\<rparr>)"
      by (rule "1.IH" [OF y refl inner [symmetric] refl a b c])
    have step: "outerLoop env L y csy pieces w =
                outerLoop env L (y + 1) (csy + ?ph) (pieces @ ?row) ?w'"
      using y inner by (simp add: outerLoop.simps [of env L y] Let_def)
    show ?thesis unfolding step ih using False by simp
  qed
qed

subsection \<open>The joint arrays\<close>

lemma randomRow_length: "length (fst (randomRow env n w)) = n"
  by (induction n arbitrary: w) (simp_all add: Let_def case_prod_unfold)

lemma randomRow_world: "snd (randomRow env n w) = w\<lparr>rand_calls := rand_calls w + n\<rparr>"
  by (induction n arbitrary: w) (simp_all add: Let_def case_prod_unfold)

lemma randomRows_length: "length (fst (randomRows env n cols w)) = n"
  by (induction n arbitrary: w) (simp_all add: Let_def case_prod_unfold)

lemma randomRows_row_length:
  "r \<in> set (fst (randomRows env n cols w)) \<Longrightarrow> length r = cols"
proof (induction n arbitrary: w)
  case 0
  then show ?case by simp
next
  case (Suc n)
  obtain r0 w' where r0: "randomRow env cols w = (r0, w')" by (cases "randomRow env cols w")
  obtain rs w'' where rs: "randomRows env n cols w' = (rs, w'')" by (cases "randomRows env n cols w'")
  from Suc.prems r0 rs have "r = r0 \<or> r \<in> set rs" by simp
  then show ?case
  proof
    assume "r = r0"
    then show ?thesis using randomRow_length [of env cols w] r0 by simp
  next
    assume "r \<in> set rs"
    then show ?thesis using Suc.IH [of w'] rs by simp
  qed
qed

lemma randomRows_world:
  "snd (randomRows env n cols w) = w\<lparr>rand_calls := rand_calls w + n * cols\<rparr>"
proof (induction n arbitrary: w)
  case 0
  then show ?case by simp
next
  case (Suc n)
  obtain r0 w' where r0: "randomRow env cols w = (r0, w')" by (cases "randomRow env cols w")
  then have w': "w' = w\<lparr>rand_calls := rand_calls w + cols\<rparr>"
    using randomRow_world [of env cols w] by simp
  show ?case using r0 Suc.IH [of w'] w' by (simp add: Let_def case_prod_unfold add.assoc)
qed

lemma onload_locals_fields:
  "img (fst (onload_locals env w im n)) = im"
  "gridSize (fst (onload_locals env w im n)) = n"
  "basePieceW (fst (onload_locals env w im n)) = width im div n"
  "basePieceH (fst (onload_locals env w im n)) = height im div n"
  "remainderW (fst (onload_locals env w im n)) = width im mod n"
  "remainderH (fst (onload_locals env w im n)) = height im mod n"
  by (simp_all add: onload_locals_def Let_def case_prod_unfold)

lemma onload_locals_world:
  "snd (onload_locals env w im n) = w\<lparr>rand_calls := rand_calls w + 2 * (n * (n - 1))\<rparr>"
proof -
  obtain hj w1 where h: "randomRows env n (n - 1) w = (hj, w1)"
    by (cases "randomRows env n (n - 1) w")
  obtain vj w2 where v: "randomRows env (n - 1) n w1 = (vj, w2)"
    by (cases "randomRows env (n - 1) n w1")
  have w1: "w1 = w\<lparr>rand_calls := rand_calls w + n * (n - 1)\<rparr>"
    using randomRows_world [of env n "n - 1" w] h by simp
  have w2: "w2 = w1\<lparr>rand_calls := rand_calls w1 + (n - 1) * n\<rparr>"
    using randomRows_world [of env "n - 1" n w1] v by simp
  show ?thesis
    using h v by (simp add: onload_locals_def w1 w2 mult.commute)
qed

lemma horizontalJoints_dims:
  "length (horizontalJoints (fst (onload_locals env w im n))) = n"
  "y < n \<Longrightarrow> length (horizontalJoints (fst (onload_locals env w im n)) ! y) = n - 1"
proof -
  obtain hj w1 where h: "randomRows env n (n - 1) w = (hj, w1)"
    by (cases "randomRows env n (n - 1) w")
  have hj: "horizontalJoints (fst (onload_locals env w im n)) = hj"
    using h by (simp add: onload_locals_def Let_def case_prod_unfold)
  show len: "length (horizontalJoints (fst (onload_locals env w im n))) = n"
    using randomRows_length [of env n "n - 1" w] h hj by simp
  assume "y < n"
  then have "hj ! y \<in> set hj" using len hj by simp
  then show "length (horizontalJoints (fst (onload_locals env w im n)) ! y) = n - 1"
    using randomRows_row_length [of "hj ! y" env n "n - 1" w] h hj by simp
qed

lemma verticalJoints_dims:
  "length (verticalJoints (fst (onload_locals env w im n))) = n - 1"
  "y < n - 1 \<Longrightarrow> length (verticalJoints (fst (onload_locals env w im n)) ! y) = n"
proof -
  obtain hj w1 where h: "randomRows env n (n - 1) w = (hj, w1)"
    by (cases "randomRows env n (n - 1) w")
  obtain vj w2 where v: "randomRows env (n - 1) n w1 = (vj, w2)"
    by (cases "randomRows env (n - 1) n w1")
  have vj: "verticalJoints (fst (onload_locals env w im n)) = vj"
    using h v by (simp add: onload_locals_def Let_def)
  show len: "length (verticalJoints (fst (onload_locals env w im n))) = n - 1"
    using randomRows_length [of env "n - 1" n w1] v vj by simp
  assume "y < n - 1"
  then have "vj ! y \<in> set vj" using len vj by simp
  then show "length (verticalJoints (fst (onload_locals env w im n)) ! y) = n"
    using randomRows_row_length [of "vj ! y" env "n - 1" n w1] v vj by simp
qed

subsection \<open>The validation of the piece count\<close>

declare floor_sqrt.simps [simp del] log4.simps [simp del]

lemma floor_sqrt_bounds: "floor_sqrt n * floor_sqrt n \<le> n \<and> n < (floor_sqrt n + 1) * (floor_sqrt n + 1)"
proof (induction n rule: floor_sqrt.induct)
  case (1 n)
  show ?case
  proof (cases "n < 2")
    case True
    then have "n = 0 \<or> n = 1" by arith
    then show ?thesis by (auto simp: floor_sqrt.simps [of 0] floor_sqrt.simps [of 1] floor_sqrt.simps [of "Suc 0"])
  next
    case False
    define a where "a = floor_sqrt (n div 4)"
    from "1.IH" [OF False] have ih: "a * a \<le> n div 4" "n div 4 < (a + 1) * (a + 1)"
      by (simp_all add: a_def)
    have lo: "(2 * a) * (2 * a) \<le> n"
    proof -
      have "4 * (a * a) \<le> 4 * (n div 4)" using ih(1) by simp
      also have "\<dots> \<le> n" by simp
      finally show ?thesis by (simp add: algebra_simps)
    qed
    have hi: "n < (2 * a + 2) * (2 * a + 2)"
    proof -
      from ih(2) have "n div 4 + 1 \<le> (a + 1) * (a + 1)" by simp
      then have "4 * (n div 4) + 4 \<le> 4 * ((a + 1) * (a + 1))" by simp
      moreover have "n < 4 * (n div 4) + 4"
        using mod_less_divisor [of 4 n] div_mult_mod_eq [of n 4] by linarith
      ultimately have "n < 4 * ((a + 1) * (a + 1))" by linarith
      then show ?thesis by (simp add: algebra_simps)
    qed
    have f: "floor_sqrt n = (if (2 * a + 1) * (2 * a + 1) \<le> n then 2 * a + 1 else 2 * a)"
      using False by (simp add: floor_sqrt.simps [of n] a_def Let_def)
    show ?thesis
    proof (cases "(2 * a + 1) * (2 * a + 1) \<le> n")
      case True
      with f hi show ?thesis by (simp add: algebra_simps)
    next
      case False
      with f lo show ?thesis by simp
    qed
  qed
qed

lemma floor_sqrt_eqI:
  assumes "t * t \<le> n" and "n < (t + 1) * (t + 1)"
  shows "floor_sqrt n = t"
proof -
  let ?s = "floor_sqrt n"
  from floor_sqrt_bounds [of n] have s: "?s * ?s \<le> n" "n < (?s + 1) * (?s + 1)" by simp_all
  have "\<not> ?s < t"
  proof
    assume "?s < t"
    then have "?s + 1 \<le> t" by simp
    then have "(?s + 1) * (?s + 1) \<le> t * t" using mult_le_mono [of "?s + 1" t "?s + 1" t] by simp
    with s(2) assms(1) show False by simp
  qed
  moreover have "\<not> t < ?s"
  proof
    assume "t < ?s"
    then have "t + 1 \<le> ?s" by simp
    then have "(t + 1) * (t + 1) \<le> ?s * ?s" using mult_le_mono [of "t + 1" ?s "t + 1" ?s] by simp
    with s(1) assms(2) show False by simp
  qed
  ultimately show ?thesis by simp
qed

lemma floor_sqrt_square: "floor_sqrt (n * n) = n"
  by (rule floor_sqrt_eqI) (simp_all add: algebra_simps)

lemma log4_bounds: "0 < n \<Longrightarrow> 4 ^ log4 n \<le> n \<and> n < 4 ^ Suc (log4 n)"
proof (induction n rule: log4.induct)
  case (1 n)
  show ?case
  proof (cases "n < 4")
    case True
    with "1.prems" show ?thesis by (simp add: log4.simps [of n])
  next
    case False
    then have "0 < n div 4" by simp
    from "1.IH" [OF False this]
    have ih: "4 ^ log4 (n div 4) \<le> n div 4" "n div 4 < 4 ^ Suc (log4 (n div 4))" by simp_all
    have l: "log4 n = Suc (log4 (n div 4))" using False by (simp add: log4.simps [of n])
    have "4 * 4 ^ log4 (n div 4) \<le> 4 * (n div 4)" using ih(1) by simp
    also have "\<dots> \<le> n" by simp
    finally have lo: "4 ^ log4 n \<le> n" by (simp add: l)
    from ih(2) have "n div 4 + 1 \<le> 4 ^ Suc (log4 (n div 4))" by simp
    then have "4 * (n div 4) + 4 \<le> 4 * 4 ^ Suc (log4 (n div 4))" by simp
    moreover have "n < 4 * (n div 4) + 4"
      using mod_less_divisor [of 4 n] div_mult_mod_eq [of n 4] by linarith
    ultimately have "n < 4 * 4 ^ Suc (log4 (n div 4))" by linarith
    then have hi: "n < 4 ^ Suc (log4 n)" by (simp add: l)
    from lo hi show ?thesis by simp
  qed
qed

lemma sqrt_integer_square: "sqrt_integer (int (n * n)) = Some n"
proof -
  have "nat (int (n * n)) = n * n" by (rule nat_int)
  moreover have "\<not> int (n * n) < 0" by simp
  ultimately show ?thesis
    unfolding sqrt_integer_def by (simp only: if_False Let_def floor_sqrt_square if_True simp_thms)
qed


lemma log4_eqI:
  assumes "4 ^ e \<le> n" and "n < 4 ^ Suc e"
  shows "log4 n = e"
proof -
  from assms(1) have "0 < n" by (cases n) simp_all
  from log4_bounds [OF this] have l: "4 ^ log4 n \<le> n" "n < 4 ^ Suc (log4 n)" by simp_all
  from l(1) assms(2) have "(4::nat) ^ log4 n < 4 ^ Suc e" by (rule le_less_trans)
  then have "log4 n < Suc e" by (rule power_less_imp_less_exp [rotated]) simp
  moreover from assms(1) l(2) have "(4::nat) ^ e < 4 ^ Suc (log4 n)" by (rule le_less_trans)
  then have "e < Suc (log4 n)" by (rule power_less_imp_less_exp [rotated]) simp
  ultimately show ?thesis by simp
qed

lemma nearest_sqrt_close:
  "nearest_sqrt P * nearest_sqrt P \<le> P + nearest_sqrt P
   \<and> P \<le> nearest_sqrt P * nearest_sqrt P + nearest_sqrt P"
proof -
  define t where "t = floor_sqrt P"
  from floor_sqrt_bounds [of P] have b: "t * t \<le> P" "P < (t + 1) * (t + 1)"
    by (simp_all add: t_def)
  show ?thesis
  proof (cases "P \<le> t * t + t")
    case True
    then have "nearest_sqrt P = t" by (simp add: nearest_sqrt_def t_def)
    with b True show ?thesis by simp
  next
    case False
    then have m: "nearest_sqrt P = t + 1" by (simp add: nearest_sqrt_def t_def)
    from False b(2) show ?thesis unfolding m by (simp add: algebra_simps)
  qed
qed

lemma four_power: "(4::nat) ^ k = 2 ^ k * 2 ^ k"
  by (simp add: power_mult_distrib [symmetric])

lemma sqrt_integer_exact:
  assumes "pieceCount < 2 ^ 52" and "sqrt_integer pieceCount = Some g"
  shows "pieceCount = int (g * g)"
proof -
  from assms(2) have p0: "\<not> pieceCount < 0"
    by (auto simp: sqrt_integer_def split: if_splits)
  define n where "n = nat pieceCount"
  have pn: "pieceCount = int n" using p0 by (simp add: n_def)
  have n52: "n < 2 ^ 52" using assms(1) pn by simp
  show ?thesis
  proof (cases "floor_sqrt n * floor_sqrt n = n")
    case True
    with assms(2) p0 have "g = floor_sqrt n"
      by (simp add: sqrt_integer_def Let_def n_def)
    with True pn show ?thesis by simp
  next
    case False
    have npos: "0 < n"
    proof (rule ccontr)
      assume "\<not> 0 < n"
      then have "n = 0" by simp
      with False show False by (simp add: floor_sqrt.simps [of 0])
    qed
    define e where "e = log4 n"
    from log4_bounds [OF npos] have "4 ^ e \<le> n" by (simp add: e_def)
    with n52 have "(4::nat) ^ e < 4 ^ 26" by simp
    then have "e < 26" by (rule power_less_imp_less_exp [rotated]) simp
    then have e52: "e \<le> 52" by simp
    define k where "k = 52 - e"
    have k27: "27 \<le> k" using \<open>e < 26\<close> by (simp add: k_def)
    define m where "m = nearest_sqrt (n * 4 ^ k)"
    from assms(2) p0 False e52 have r: "2 ^ k dvd m" "g = m div 2 ^ k"
      by (auto simp: sqrt_integer_def Let_def n_def [symmetric] e_def [symmetric]
          k_def [symmetric] m_def [symmetric] split: if_splits)
    then have mg: "m = g * 2 ^ k" by simp
    from nearest_sqrt_close [of "n * 4 ^ k"]
    have c: "m * m \<le> n * 4 ^ k + m" "n * 4 ^ k \<le> m * m + m"
      by (simp_all add: m_def)
    have sq: "(g * 2 ^ k) * (g * 2 ^ k) = g * g * 4 ^ k"
      by (simp add: four_power algebra_simps)
    from c have A: "g * g * 4 ^ k \<le> n * 4 ^ k + g * 2 ^ k"
      and B: "n * 4 ^ k \<le> g * g * 4 ^ k + g * 2 ^ k"
      unfolding mg sq by simp_all
    have ne: "n \<noteq> g * g"
    proof
      assume "n = g * g"
      then have "floor_sqrt n = g" by (simp add: floor_sqrt_square)
      with \<open>n = g * g\<close> False show False by simp
    qed
    have ge: "2 ^ k \<le> g"
    proof (cases "g * g < n")
      case True
      then have "g * g + 1 \<le> n" by simp
      then have "(g * g + 1) * 4 ^ k \<le> n * 4 ^ k" by (rule mult_le_mono1)
      with B have "4 ^ k \<le> g * 2 ^ k" by (simp add: algebra_simps)
      then have "2 ^ k * 2 ^ k \<le> g * 2 ^ k" by (simp only: four_power)
      then show ?thesis by simp
    next
      case False
      with ne have "n + 1 \<le> g * g" by simp
      then have "(n + 1) * 4 ^ k \<le> g * g * 4 ^ k" by (rule mult_le_mono1)
      with A have "4 ^ k \<le> g * 2 ^ k" by (simp add: algebra_simps)
      then have "2 ^ k * 2 ^ k \<le> g * 2 ^ k" by (simp only: four_power)
      then show ?thesis by simp
    qed
    have "(2::nat) ^ 27 \<le> 2 ^ k" using k27 by (intro power_increasing) simp_all
    with ge have g27: "2 ^ 27 \<le> g" by simp
    have "(2::nat) ^ k \<le> 4 ^ k" by (rule power_mono) simp_all
    then have "g * 2 ^ k \<le> g * 4 ^ k" by (rule mult_le_mono2)
    with A have "g * g * 4 ^ k \<le> n * 4 ^ k + g * 4 ^ k" by (rule le_trans [OF _ add_left_mono])
    then have "g * g * 4 ^ k \<le> (n + g) * 4 ^ k" by (simp only: add_mult_distrib)
    then have gg: "g * g \<le> n + g" by simp
    from g27 have "2 ^ 27 * g \<le> g * g" by (rule mult_le_mono1)
    then have h: "134217728 * g \<le> g * g" by simp
    from n52 have n': "n < 4503599627370496" by simp
    from g27 have g': "134217728 \<le> g" by simp
    from h gg n' g' have False by linarith
    then show ?thesis ..
  qed
qed

lemma sqrt_integer_None:
  assumes "pieceCount < 2 ^ 52"
  shows "sqrt_integer pieceCount = None \<longleftrightarrow> (\<forall>g::nat. int (g * g) \<noteq> pieceCount)"
proof
  assume n: "sqrt_integer pieceCount = None"
  show "\<forall>g::nat. int (g * g) \<noteq> pieceCount"
  proof (intro allI notI)
    fix g :: nat assume "int (g * g) = pieceCount"
    with sqrt_integer_square [of g] n show False by simp
  qed
next
  assume a: "\<forall>g::nat. int (g * g) \<noteq> pieceCount"
  show "sqrt_integer pieceCount = None"
  proof (cases "sqrt_integer pieceCount")
    case None
    then show ?thesis .
  next
    case (Some g)
    from sqrt_integer_exact [OF assms Some] have "int (g * g) = pieceCount" by (rule sym)
    with a show ?thesis by blast
  qed
qed

lemma sqrt_integer_rounds:
  "sqrt_integer 4503599627370497 = Some 67108864"
proof -
  have f: "floor_sqrt 4503599627370497 = 67108864"
    by (rule floor_sqrt_eqI) simp_all
  have l: "log4 4503599627370497 = 26"
    by (rule log4_eqI) simp_all
  have t: "floor_sqrt 20282409603651674927546878656512 = 4503599627370496"
    by (rule floor_sqrt_eqI) simp_all
  have m: "nearest_sqrt 20282409603651674927546878656512 = 4503599627370496"
    by (simp add: nearest_sqrt_def t)
  have d: "(2::nat) ^ 26 dvd 4503599627370496" by simp
  have q: "(4503599627370496::nat) div 2 ^ 26 = 67108864" by simp
  have n: "nat 4503599627370497 = 4503599627370497" by simp
  show ?thesis
    unfolding sqrt_integer_def
    by (simp add: Let_def f l m d q)
qed


subsection \<open>Row-major order\<close>

lemma concat_rows:
  "concat (map (\<lambda>y. map (f y) [0..<n]) [0..<m]) = map (\<lambda>i. f (i div n) (i mod n)) [0..<m * n]"
proof (induction m)
  case 0
  then show ?case by simp
next
  case (Suc m)
  have "[m * n..<n + m * n] = map (\<lambda>i. i + m * n) [0..<n]"
    by (simp only: map_add_upt)
  then have "map (\<lambda>i. f (i div n) (i mod n)) [m * n..<n + m * n]
      = map (\<lambda>i. f ((i + m * n) div n) ((i + m * n) mod n)) [0..<n]"
    by (simp add: o_def)
  also have "\<dots> = map (f m) [0..<n]"
    by (rule map_cong [OF refl]) simp
  finally have last: "map (\<lambda>i. f (i div n) (i mod n)) [m * n..<n + m * n] = map (f m) [0..<n]" .
  have "[0..<m * n + n] = [0..<m * n] @ [m * n..<m * n + n]"
    by (rule upt_add_eq_append) simp
  then have "[0..<Suc m * n] = [0..<m * n] @ [m * n..<n + m * n]"
    by (simp add: add.commute)
  then show ?case using Suc last by simp
qed

subsection \<open>The whole function\<close>

lemma rowFrom_cells: "rowFrom L 0 0 = (\<lambda>y. map (cell L y) [0..<gridSize L])"
  by (rule ext) (simp add: rowFrom_def cell_def sourceY_def atLeast0LessThan)

lemma createJigsawPieces_sqrt_ok:
  assumes "sqrt_integer pieceCount = Some N"
    and "\<forall>k<N * N. getContext env (canvases w + k)"
  shows "createJigsawPieces env w (Some im) pieceCount =
     (Inr (map (\<lambda>i. cell (fst (onload_locals env w im N)) (i div N) (i mod N)) [0..<N * N]),
      w\<lparr>rand_calls := rand_calls w + 2 * (N * (N - 1)), canvases := canvases w + N * N\<rparr>)"
proof -
  obtain L w2 where lw: "onload_locals env w im N = (L, w2)"
    by (cases "onload_locals env w im N")
  have L: "L = fst (onload_locals env w im N)" using lw by simp
  have n: "gridSize L = N" by (simp add: L onload_locals_fields)
  have w2: "w2 = w\<lparr>rand_calls := rand_calls w + 2 * (N * (N - 1))\<rparr>"
    using onload_locals_world [of env w im N] lw by simp
  have pre: "\<forall>k<(gridSize L - 0) * gridSize L. getContext env (canvases w2 + k)"
    using assms(2) by (simp add: n w2)
  have "outerLoop env L 0 0 [] w2 =
      (Inr ([] @ concat (map (rowFrom L 0 0) [0..<gridSize L])),
       w2\<lparr>canvases := canvases w2 + (gridSize L - 0) * gridSize L\<rparr>)"
    by (rule outerLoop_ok [OF pre])
  also have "concat (map (rowFrom L 0 0) [0..<gridSize L])
           = map (\<lambda>i. cell L (i div N) (i mod N)) [0..<N * N]"
    by (simp add: rowFrom_cells n concat_rows)
  finally have "outerLoop env L 0 0 [] w2 =
      (Inr (map (\<lambda>i. cell L (i div N) (i mod N)) [0..<N * N]),
       w\<lparr>rand_calls := rand_calls w + 2 * (N * (N - 1)), canvases := canvases w + N * N\<rparr>)"
    by (simp add: n w2)
  then show ?thesis
    by (simp add: createJigsawPieces_def assms(1) lw L [symmetric])
qed

lemma createJigsawPieces_sqrt_fail:
  assumes "sqrt_integer pieceCount = Some N"
    and "k < N * N"
    and "\<forall>j<k. getContext env (canvases w + j)"
    and "\<not> getContext env (canvases w + k)"
  shows "createJigsawPieces env w (Some im) pieceCount =
     (Inl (Error ''Could not get canvas context.''),
      w\<lparr>rand_calls := rand_calls w + 2 * (N * (N - 1)), canvases := canvases w + k + 1\<rparr>)"
proof -
  obtain L w2 where lw: "onload_locals env w im N = (L, w2)"
    by (cases "onload_locals env w im N")
  have L: "L = fst (onload_locals env w im N)" using lw by simp
  have n: "gridSize L = N" by (simp add: L onload_locals_fields)
  have w2: "w2 = w\<lparr>rand_calls := rand_calls w + 2 * (N * (N - 1))\<rparr>"
    using onload_locals_world [of env w im N] lw by simp
  have a: "k < (gridSize L - 0) * gridSize L" using assms(2) by (simp add: n)
  have b: "\<forall>j<k. getContext env (canvases w2 + j)" using assms(3) by (simp add: w2)
  have c: "\<not> getContext env (canvases w2 + k)" using assms(4) by (simp add: w2)
  have "outerLoop env L 0 0 [] w2 =
      (Inl (Error ''Could not get canvas context.''), w2\<lparr>canvases := canvases w2 + k + 1\<rparr>)"
    by (rule outerLoop_fail [OF a b c])
  then show ?thesis
    by (simp add: createJigsawPieces_def assms(1) lw w2)
qed

lemma createJigsawPieces_ok:
  assumes "\<forall>k<N * N. getContext env (canvases w + k)"
  shows "createJigsawPieces env w (Some im) (int (N * N)) =
     (Inr (map (\<lambda>i. cell (fst (onload_locals env w im N)) (i div N) (i mod N)) [0..<N * N]),
      w\<lparr>rand_calls := rand_calls w + 2 * (N * (N - 1)), canvases := canvases w + N * N\<rparr>)"
  by (rule createJigsawPieces_sqrt_ok [OF sqrt_integer_square assms])

lemma createJigsawPieces_fail:
  assumes "k < N * N"
    and "\<forall>j<k. getContext env (canvases w + j)"
    and "\<not> getContext env (canvases w + k)"
  shows "createJigsawPieces env w (Some im) (int (N * N)) =
     (Inl (Error ''Could not get canvas context.''),
      w\<lparr>rand_calls := rand_calls w + 2 * (N * (N - 1)), canvases := canvases w + k + 1\<rparr>)"
  by (rule createJigsawPieces_sqrt_fail [OF sqrt_integer_square assms])


lemma first_failure:
  assumes "\<exists>k<m. \<not> g (c + k)"
  obtains k :: nat where "k < m" and "\<forall>j<k. g (c + j)" and "\<not> g (c + k)"
proof -
  from assms have "\<exists>k. k < m \<and> \<not> g (c + k)" by blast
  then have "\<exists>k. (k < m \<and> \<not> g (c + k)) \<and> (\<forall>j<k. \<not> (j < m \<and> \<not> g (c + j)))"
    by (simp only: exists_least_iff [symmetric])
  then obtain k where k: "k < m" "\<not> g (c + k)" and l: "\<forall>j<k. \<not> (j < m \<and> \<not> g (c + j))"
    by blast
  have "\<forall>j<k. g (c + j)"
  proof (intro allI impI)
    fix j assume "j < k"
    with k(1) have "j < m" by simp
    with l \<open>j < k\<close> show "g (c + j)" by blast
  qed
  with k that show thesis by blast
qed

lemma first_failure':
  assumes "\<not> (\<forall>k<m. g (c + k))"
  obtains k :: nat where "k < m" and "\<forall>j<k. g (c + j)" and "\<not> g (c + k)"
proof -
  from assms have "\<exists>k<m. \<not> g (c + k)" by blast
  then show thesis by (rule first_failure) (rule that)
qed

lemma accepted_count_not_rejected:
  assumes "sqrt_integer pieceCount = Some N"
  shows "fst (createJigsawPieces env w (Some im) pieceCount)
           \<noteq> Inl (Error ''Piece count must be a perfect square.'')
       \<and> rand_calls (snd (createJigsawPieces env w (Some im) pieceCount))
           = rand_calls w + 2 * (N * (N - 1))"
proof (cases "\<forall>k<N * N. getContext env (canvases w + k)")
  case True
  from createJigsawPieces_sqrt_ok [OF assms True, of im] show ?thesis by simp
next
  case False
  then obtain k where "k < N * N" and "\<forall>j<k. getContext env (canvases w + j)"
    and "\<not> getContext env (canvases w + k)"
    by (rule first_failure')
  from createJigsawPieces_sqrt_fail [OF assms this, of im] show ?thesis by simp
qed

lemma ten_not_square: "\<forall>g::nat. int (g * g) \<noteq> 10"
proof (intro allI notI)
  fix g :: nat assume "int (g * g) = 10"
  then have e: "g * g = 10" by linarith
  show False
  proof (cases "g \<le> 3")
    case True
    then have "g * g \<le> 3 * 3" using mult_le_mono [of g 3 g 3] by simp
    with e show False by simp
  next
    case False
    then have "4 \<le> g" by simp
    then have "4 * 4 \<le> g * g" using mult_le_mono [of 4 g 4 g] by simp
    with e show False by simp
  qed
qed

subsection \<open>The partition\<close>

lemma sum_extra_pixels: "(\<Sum>x<n. if x < r then 1 else 0) = min r (n::nat)"
  by (induction n) simp_all

lemma sum_partition:
  assumes "0 < n"
  shows "(\<Sum>x<n. W div n + (if x < W mod n then 1 else 0)) = (W::nat)"
proof -
  have "(\<Sum>x<n. W div n + (if x < W mod n then 1 else 0))
      = n * (W div n) + (\<Sum>x<n. if x < W mod n then 1 else 0)"
    by (simp add: sum.distrib)
  also have "\<dots> = n * (W div n) + min (W mod n) n"
    by (simp only: sum_extra_pixels)
  also have "\<dots> = n * (W div n) + W mod n"
    using assms by (simp add: min_def)
  finally show ?thesis by simp
qed

lemma pieceW_onload:
  "pieceW (fst (onload_locals env w im n)) x =
     width im div n + (if x < width im mod n then 1 else 0)"
  by (simp add: pieceW_def onload_locals_fields)

lemma pieceH_onload:
  "pieceH (fst (onload_locals env w im n)) y =
     height im div n + (if y < height im mod n then 1 else 0)"
  by (simp add: pieceH_def onload_locals_fields)

lemma sum_pieceW: "0 < n \<Longrightarrow> (\<Sum>x<n. pieceW (fst (onload_locals env w im n)) x) = width im"
  by (simp only: pieceW_onload sum_partition)

lemma sum_pieceH: "0 < n \<Longrightarrow> (\<Sum>y<n. pieceH (fst (onload_locals env w im n)) y) = height im"
  by (simp only: pieceH_onload sum_partition)

subsection \<open>Intervals of consecutive sizes\<close>

lemma prefix_sum_mono: "(x::nat) \<le> x' \<Longrightarrow> (\<Sum>j<x. f j) \<le> (\<Sum>j<x'. (f j :: nat))"
  by (rule sum_mono2) auto

lemma intervals_disjoint:
  assumes "(x::nat) < x'"
  shows "{(\<Sum>j<x. f j) ..< (\<Sum>j<x. f j) + f x} \<inter> {(\<Sum>j<x'. f j) ..< (\<Sum>j<x'. f j) + (f x' :: nat)} = {}"
proof -
  from assms have "Suc x \<le> x'" by simp
  then have "(\<Sum>j<Suc x. f j) \<le> (\<Sum>j<x'. f j)" by (rule prefix_sum_mono)
  then have "(\<Sum>j<x. f j) + f x \<le> (\<Sum>j<x'. f j)" by simp
  then show ?thesis by auto
qed

lemma intervals_disjoint_neq:
  assumes "(x::nat) \<noteq> x'"
  shows "{(\<Sum>j<x. f j) ..< (\<Sum>j<x. f j) + f x} \<inter> {(\<Sum>j<x'. f j) ..< (\<Sum>j<x'. f j) + (f x' :: nat)} = {}"
proof (cases "x < x'")
  case True
  then show ?thesis by (rule intervals_disjoint)
next
  case False
  with assms have "x' < x" by simp
  then have "{(\<Sum>j<x'. f j) ..< (\<Sum>j<x'. f j) + f x'} \<inter> {(\<Sum>j<x. f j) ..< (\<Sum>j<x. f j) + f x} = {}"
    by (rule intervals_disjoint)
  then show ?thesis by (simp only: Int_commute)
qed

lemma intervals_cover:
  "(\<Union>x<(n::nat). {(\<Sum>j<x. f j) ..< (\<Sum>j<x. f j) + f x}) = {0 ..< (\<Sum>j<n. (f j :: nat))}"
proof (induction n)
  case 0
  then show ?case by simp
next
  case (Suc n)
  have "(\<Union>x<Suc n. {(\<Sum>j<x. f j) ..< (\<Sum>j<x. f j) + f x})
      = (\<Union>x<n. {(\<Sum>j<x. f j) ..< (\<Sum>j<x. f j) + f x}) \<union> {(\<Sum>j<n. f j) ..< (\<Sum>j<n. f j) + f n}"
    by (simp add: lessThan_Suc Un_commute)
  also have "\<dots> = {0 ..< (\<Sum>j<n. f j)} \<union> {(\<Sum>j<n. f j) ..< (\<Sum>j<n. f j) + f n}"
    by (simp only: Suc.IH)
  also have "\<dots> = {0 ..< (\<Sum>j<n. f j) + f n}"
    by (rule ivl_disj_un) simp_all
  finally show ?case by simp
qed

lemma Union_Times:
  "(\<Union>y<n. \<Union>x<m. A x \<times> B y) = (\<Union>x<m. A x) \<times> (\<Union>y<n. B y)"
  by auto


subsection \<open>Sides\<close>

lemma drawSide_FLAT: "drawSide startX startY endX endY FLAT = [LineTo endX endY]"
  by (simp add: drawSide_def)

lemma normLen_nonzero:
  assumes "(startX, startY) \<noteq> (endX, endY)"
  shows "sqrt ((endY - startY) * (endY - startY) + (- (endX - startX)) * (- (endX - startX))) \<noteq> 0"
proof -
  from assms have "endX - startX \<noteq> 0 \<or> endY - startY \<noteq> 0" by auto
  then have nz: "(endY - startY) * (endY - startY) + (endX - startX) * (endX - startX) \<noteq> 0"
    using sum_squares_eq_zero_iff [of "endY - startY" "endX - startX"] by blast
  have e: "(- (endX - startX)) * (- (endX - startX)) = (endX - startX) * (endX - startX)"
    by (rule minus_mult_minus)
  show ?thesis unfolding e real_sqrt_eq_zero_cancel_iff by (rule nz)
qed

lemma drawSide_Joint:
  assumes "(startX, startY) \<noteq> (endX, endY)"
  shows "drawSide startX startY endX endY (Joint j) =
     [LineTo (startX + (endX - startX) * 0.2) (startY + (endY - startY) * 0.2),
      BezierCurveTo
        (Some (startX + (endX - startX) * 0.2
                 + (if j = KNOB then 1 else - 1) * KNOB_RATIO * (endY - startY)))
        (Some (startY + (endY - startY) * 0.2
                 - (if j = KNOB then 1 else - 1) * KNOB_RATIO * (endX - startX)))
        (Some (startX + (endX - startX) * 0.8
                 + (if j = KNOB then 1 else - 1) * KNOB_RATIO * (endY - startY)))
        (Some (startY + (endY - startY) * 0.8
                 - (if j = KNOB then 1 else - 1) * KNOB_RATIO * (endX - startX)))
        (startX + (endX - startX) * 0.8) (startY + (endY - startY) * 0.8),
      LineTo endX endY]"
proof -
  define len where
    "len = sqrt ((endY - startY) * (endY - startY) + (- (endX - startX)) * (- (endX - startX)))"
  have len: "len \<noteq> 0" unfolding len_def by (rule normLen_nonzero [OF assms])
  have ux: "(endY - startY) / len * (len * KNOB_RATIO * s) = s * KNOB_RATIO * (endY - startY)" for s
    using len by simp
  have uy: "- (endX - startX) / len * (len * KNOB_RATIO * s) = - (s * KNOB_RATIO * (endX - startX))" for s
    using len by (simp add: field_simps)
  have r: "(1 - 0.6) / 2 = (0.2::real)" "1 - (0.2::real) = 0.8" by simp_all
  have l: "(if len = 0 then None else Some v) = Some v" for v :: real
    using len by simp
  show ?thesis
    unfolding drawSide_def
    by (simp only: Side.case Let_def js_div_def offset_by_def len_def [symmetric] l
        option.map r ux uy add_uminus_conv_diff)
qed

lemma drawSide_no_Translate: "Translate a b \<notin> set (drawSide startX startY endX endY s)"
  by (cases s) (simp_all add: drawSide_def Let_def)


lemma offset_perpendicular:
  fixes dx dy s :: real
  shows "s * KNOB_RATIO * dy * dx + - (s * KNOB_RATIO * dx) * dy = 0"
  by (simp add: algebra_simps)

lemma offset_length:
  fixes dx dy s :: real
  assumes "s = 1 \<or> s = - 1"
  shows "sqrt ((s * KNOB_RATIO * dy) * (s * KNOB_RATIO * dy)
               + (- (s * KNOB_RATIO * dx)) * (- (s * KNOB_RATIO * dx)))
         = KNOB_RATIO * sqrt (dx * dx + dy * dy)"
proof -
  have k: "0 \<le> KNOB_RATIO" by (simp add: KNOB_RATIO_def)
  from assms have s: "s * s = 1" by auto
  have "(s * KNOB_RATIO * dy) * (s * KNOB_RATIO * dy)
          + (- (s * KNOB_RATIO * dx)) * (- (s * KNOB_RATIO * dx))
        = (s * s) * ((KNOB_RATIO * KNOB_RATIO) * (dx * dx + dy * dy))"
    by (simp add: algebra_simps)
  also have "\<dots> = (KNOB_RATIO * KNOB_RATIO) * (dx * dx + dy * dy)"
    by (simp only: s mult_1)
  finally show ?thesis
    using k by (simp add: real_sqrt_mult)
qed

lemma drawSide_degenerate:
  "drawSide x y x y (Joint j) = [LineTo x y, BezierCurveTo None None None None x y, LineTo x y]"
  by (simp add: drawSide_def js_div_def offset_by_def)

lemma renderPiece_degenerate_top:
  assumes "top_side sh = Joint j"
  shows "BezierCurveTo None None None None 0 0 \<in> set (calls (renderPiece im sx sy 0 ph sh))"
  using drawSide_degenerate [of 0 0 j] assms by (simp add: renderPiece_def Let_def)

subsection \<open>Canvas dimensions\<close>

lemma set_dimension_floor:
  assumes "0 \<le> x" and "x < 2 ^ 31"
  shows "set_dimension dflt x = nat \<lfloor>x\<rfloor>"
proof -
  define f where "f = \<lfloor>x\<rfloor>"
  from assms(1) have f0: "0 \<le> f" by (simp add: f_def)
  from assms(2) have f1: "f < 2 ^ 31" by (simp add: f_def floor_less_iff)
  then have "f < 2 ^ 32" by simp
  with f0 have m: "f mod 2 ^ 32 = f" by (rule mod_pos_pos_trivial)
  have u: "to_unsigned_long x = nat f"
    using assms(1) by (simp only: to_unsigned_long_def if_True f_def [symmetric] m)
  from f1 f0 have "nat f \<le> 2147483647" by simp
  then show ?thesis by (simp add: set_dimension_def u Let_def f_def)
qed

lemma canvas_width_renderPiece:
  assumes "0 \<le> pw" and "pw * (1 + 2 * KNOB_RATIO) < 2 ^ 31"
  shows "canvas_width (renderPiece im sx sy pw ph sh) = nat \<lfloor>pw * (1 + 2 * KNOB_RATIO)\<rfloor>"
proof -
  have e: "pw + 2 * (pw * KNOB_RATIO) = pw * (1 + 2 * KNOB_RATIO)" by (simp add: algebra_simps)
  have "0 \<le> pw * (1 + 2 * KNOB_RATIO)" using assms(1) by (simp add: KNOB_RATIO_def)
  from set_dimension_floor [OF this assms(2)] show ?thesis
    by (simp add: renderPiece_def Let_def e)
qed

lemma canvas_height_renderPiece:
  assumes "0 \<le> ph" and "ph * (1 + 2 * KNOB_RATIO) < 2 ^ 31"
  shows "canvas_height (renderPiece im sx sy pw ph sh) = nat \<lfloor>ph * (1 + 2 * KNOB_RATIO)\<rfloor>"
proof -
  have e: "ph + 2 * (ph * KNOB_RATIO) = ph * (1 + 2 * KNOB_RATIO)" by (simp add: algebra_simps)
  have "0 \<le> ph * (1 + 2 * KNOB_RATIO)" using assms(1) by (simp add: KNOB_RATIO_def)
  from set_dimension_floor [OF this assms(2)] show ?thesis
    by (simp add: renderPiece_def Let_def e)
qed

lemma nat_floor_bounds:
  assumes "0 \<le> (x::real)"
  shows "x - 1 < real (nat \<lfloor>x\<rfloor>) \<and> real (nat \<lfloor>x\<rfloor>) \<le> x
       \<and> (x \<in> \<int> \<longrightarrow> real (nat \<lfloor>x\<rfloor>) = x)"
proof -
  from assms have "0 \<le> \<lfloor>x\<rfloor>" by simp
  then have r: "real (nat \<lfloor>x\<rfloor>) = of_int \<lfloor>x\<rfloor>" by simp
  have "x - 1 < of_int \<lfloor>x\<rfloor>" by linarith
  moreover have "of_int \<lfloor>x\<rfloor> \<le> x" by simp
  moreover have "of_int \<lfloor>x\<rfloor> = x" if "x \<in> \<int>" using that by (simp add: floor_of_int Ints_def)
  ultimately show ?thesis unfolding r by blast
qed

section \<open>The topology\<close>

text \<open>
  C1: for every grid size \<open>N \<ge> 2\<close> and every internal edge of the generated
  topology, the two cells on the edge record inverse shapes: the right side of a
  cell is KNOB exactly when the left side of its right neighbour is SOCKET and
  the other way round, and likewise for the bottom side of a cell and the top
  side of the cell below. Both sides are read from an element of the joint
  arrays.
\<close>

theorem adjacent_sides_inverse:
  assumes "2 \<le> N" and "L = fst (onload_locals env w im N)"
  shows "(\<forall>y x. y < N \<and> x + 1 < N \<longrightarrow>
            y < length (horizontalJoints L) \<and> x < length (horizontalJoints L ! y) \<and>
            (right_side (shape L y x) = Joint KNOB \<and> left_side (shape L y (x + 1)) = Joint SOCKET
             \<or> right_side (shape L y x) = Joint SOCKET \<and> left_side (shape L y (x + 1)) = Joint KNOB))
       \<and> (\<forall>y x. y + 1 < N \<and> x < N \<longrightarrow>
            y < length (verticalJoints L) \<and> x < length (verticalJoints L ! y) \<and>
            (bottom_side (shape L y x) = Joint KNOB \<and> top_side (shape L (y + 1) x) = Joint SOCKET
             \<or> bottom_side (shape L y x) = Joint SOCKET \<and> top_side (shape L (y + 1) x) = Joint KNOB))"
proof (intro conjI allI impI)
  have n: "gridSize L = N" using assms(2) by (simp add: onload_locals_fields)
  {
    fix y x assume a: "y < N \<and> x + 1 < N"
    show "y < length (horizontalJoints L)"
      using a assms(2) by (simp add: horizontalJoints_dims)
    show "x < length (horizontalJoints L ! y)"
      using a assms(2) horizontalJoints_dims(2) [of y N env w im] by auto
    show "right_side (shape L y x) = Joint KNOB \<and> left_side (shape L y (x + 1)) = Joint SOCKET
        \<or> right_side (shape L y x) = Joint SOCKET \<and> left_side (shape L y (x + 1)) = Joint KNOB"
    proof -
      from a have "x \<noteq> N - 1" by arith
      then show ?thesis
        using n by (cases "horizontalJoints L ! y ! x") (simp_all add: shape_def)
    qed
  }
  {
    fix y x assume a: "y + 1 < N \<and> x < N"
    from a have y1: "y < N - 1" by arith
    show "y < length (verticalJoints L)"
      using y1 assms(2) by (simp add: verticalJoints_dims)
    show "x < length (verticalJoints L ! y)"
      using a y1 assms(2) verticalJoints_dims(2) [of y N env w im] by simp
    show "bottom_side (shape L y x) = Joint KNOB \<and> top_side (shape L (y + 1) x) = Joint SOCKET
        \<or> bottom_side (shape L y x) = Joint SOCKET \<and> top_side (shape L (y + 1) x) = Joint KNOB"
    proof -
      from a have "y \<noteq> N - 1" by arith
      then show ?thesis
        using n by (cases "verticalJoints L ! y ! x") (simp_all add: shape_def)
    qed
  }
qed

theorem adjacent_sides_inverse_witness:
  "(2::nat) \<le> 2 \<and> (0::nat) < 2 \<and> (0::nat) + 1 < 2
   \<and> (right_side (shape (fst (onload_locals env0 w0 im800 2)) 0 0) = Joint KNOB
        \<and> left_side (shape (fst (onload_locals env0 w0 im800 2)) 0 (0 + 1)) = Joint SOCKET
      \<or> right_side (shape (fst (onload_locals env0 w0 im800 2)) 0 0) = Joint SOCKET
        \<and> left_side (shape (fst (onload_locals env0 w0 im800 2)) 0 (0 + 1)) = Joint KNOB)
   \<and> (bottom_side (shape (fst (onload_locals env0 w0 im800 2)) 0 0) = Joint KNOB
        \<and> top_side (shape (fst (onload_locals env0 w0 im800 2)) (0 + 1) 0) = Joint SOCKET
      \<or> bottom_side (shape (fst (onload_locals env0 w0 im800 2)) 0 0) = Joint SOCKET
        \<and> top_side (shape (fst (onload_locals env0 w0 im800 2)) (0 + 1) 0) = Joint KNOB)"
proof -
  have h: "(2::nat) \<le> 2" by simp
  note t = adjacent_sides_inverse [OF h refl, of env0 w0 im800]
  from t have a: "\<forall>y x. y < 2 \<and> x + 1 < 2 \<longrightarrow>
            y < length (horizontalJoints (fst (onload_locals env0 w0 im800 2))) \<and>
            x < length (horizontalJoints (fst (onload_locals env0 w0 im800 2)) ! y) \<and>
            (right_side (shape (fst (onload_locals env0 w0 im800 2)) y x) = Joint KNOB
               \<and> left_side (shape (fst (onload_locals env0 w0 im800 2)) y (x + 1)) = Joint SOCKET
             \<or> right_side (shape (fst (onload_locals env0 w0 im800 2)) y x) = Joint SOCKET
               \<and> left_side (shape (fst (onload_locals env0 w0 im800 2)) y (x + 1)) = Joint KNOB)"
    by (rule conjunct1)
  from t have b: "\<forall>y x. y + 1 < 2 \<and> x < 2 \<longrightarrow>
            y < length (verticalJoints (fst (onload_locals env0 w0 im800 2))) \<and>
            x < length (verticalJoints (fst (onload_locals env0 w0 im800 2)) ! y) \<and>
            (bottom_side (shape (fst (onload_locals env0 w0 im800 2)) y x) = Joint KNOB
               \<and> top_side (shape (fst (onload_locals env0 w0 im800 2)) (y + 1) x) = Joint SOCKET
             \<or> bottom_side (shape (fst (onload_locals env0 w0 im800 2)) y x) = Joint SOCKET
               \<and> top_side (shape (fst (onload_locals env0 w0 im800 2)) (y + 1) x) = Joint KNOB)"
    by (rule conjunct2)
  have c: "(0::nat) < 2 \<and> (0::nat) + 1 < 2" by simp
  have d: "(0::nat) + 1 < 2 \<and> (0::nat) < 2" by simp
  from a [rule_format, OF c] b [rule_format, OF d] show ?thesis by simp
qed


text \<open>
  C3: for every grid size \<open>N \<ge> 2\<close> and every cell, a side of the shape is FLAT
  exactly when it faces the border of the grid; every other side is KNOB or
  SOCKET.
\<close>

theorem border_sides_flat:
  assumes "2 \<le> N" and "L = fst (onload_locals env w im N)" and "y < N" and "x < N"
  shows "(top_side (shape L y x) = FLAT \<longleftrightarrow> y = 0)
       \<and> (bottom_side (shape L y x) = FLAT \<longleftrightarrow> y = N - 1)
       \<and> (left_side (shape L y x) = FLAT \<longleftrightarrow> x = 0)
       \<and> (right_side (shape L y x) = FLAT \<longleftrightarrow> x = N - 1)
       \<and> (\<forall>s \<in> {top_side (shape L y x), right_side (shape L y x),
                  bottom_side (shape L y x), left_side (shape L y x)}.
             s \<noteq> FLAT \<longrightarrow> s = Joint KNOB \<or> s = Joint SOCKET)"
proof -
  have n: "gridSize L = N" using assms(2) by (simp add: onload_locals_fields)
  have j: "s = Joint KNOB \<or> s = Joint SOCKET" if "s \<noteq> FLAT" for s
  proof (cases s)
    case (Joint k)
    then show ?thesis by (cases k) simp_all
  next
    case FLAT
    with that show ?thesis by simp
  qed
  show ?thesis using n j by (simp add: shape_def)
qed


theorem border_sides_flat_witness:
  "(2::nat) \<le> 2 \<and> (0::nat) < 2 \<and> (1::nat) < 2
   \<and> top_side (shape (fst (onload_locals env0 w0 im800 2)) 0 1) = FLAT
   \<and> right_side (shape (fst (onload_locals env0 w0 im800 2)) 0 1) = FLAT
   \<and> bottom_side (shape (fst (onload_locals env0 w0 im800 2)) 0 1) \<noteq> FLAT
   \<and> left_side (shape (fst (onload_locals env0 w0 im800 2)) 0 1) \<noteq> FLAT"
  using border_sides_flat [of 2 "fst (onload_locals env0 w0 im800 2)" env0 w0 im800 0 1]
  by simp

section \<open>Rejections\<close>

text \<open>
  C4: every piece count whose square root is not an integer should be rejected
  with ``Piece count must be a perfect square.'' before anything else happens.
  The code does not do so for \<open>4503599627370497 = 2 ^ 52 + 1\<close>, which lies
  strictly between the squares of 67108864 and 67108865: \<^verbatim>\<open>Math.sqrt\<close> rounds
  its root to 67108864, \<^verbatim>\<open>Number.isInteger\<close> holds, the promise is not
  rejected with the validation error, and the random numbers of a grid of size
  67108864 are drawn.
\<close>

theorem large_non_square_piece_count_accepted:
  "(67108864::int) * 67108864 < 4503599627370497
   \<and> (4503599627370497::int) < 67108865 * 67108865
   \<and> sqrt_integer 4503599627370497 = Some 67108864
   \<and> fst (createJigsawPieces env w (Some im) 4503599627370497)
       \<noteq> Inl (Error ''Piece count must be a perfect square.'')
   \<and> rand_calls (snd (createJigsawPieces env w (Some im) 4503599627370497))
       = rand_calls w + 2 * (67108864 * (67108864 - 1))"
proof -
  have a: "(67108864::int) * 67108864 < 4503599627370497" by simp
  have b: "(4503599627370497::int) < 67108865 * 67108865" by simp
  note c = accepted_count_not_rejected [OF sqrt_integer_rounds, of env w im]
  from a b sqrt_integer_rounds c [THEN conjunct1] c [THEN conjunct2]
  show ?thesis by (intro conjI)
qed

text \<open>
  Below \<open>2 ^ 52\<close> the validation is exact: a count that is not a square is
  rejected with the validation error and the world is unchanged (no random
  number drawn, no canvas created); whatever the outcome of the decoding, the
  promise is rejected. Piece count 10 is an instance.
\<close>

lemma non_square_piece_count_rejected:
  assumes "\<forall>g::nat. int (g * g) \<noteq> pieceCount" and "pieceCount < 2 ^ 52"
  shows "createJigsawPieces env w (Some im) pieceCount =
           (Inl (Error ''Piece count must be a perfect square.''), w)
       \<and> (\<forall>decoded. \<exists>e. createJigsawPieces env w decoded pieceCount = (Inl e, w))"
proof -
  have n: "sqrt_integer pieceCount = None"
    using assms(1) sqrt_integer_None [OF assms(2)] by blast
  have a: "createJigsawPieces env w (Some im') pieceCount =
           (Inl (Error ''Piece count must be a perfect square.''), w)" for im'
    by (simp add: createJigsawPieces_def n)
  have "\<exists>e. createJigsawPieces env w decoded pieceCount = (Inl e, w)" for decoded
    by (cases decoded) (simp_all add: createJigsawPieces_def n)
  with a show ?thesis by blast
qed

lemma piece_count_10_rejected:
  "createJigsawPieces env0 w0 (Some im800) 10 =
       (Inl (Error ''Piece count must be a perfect square.''), w0)"
proof -
  have "(10::int) < 2 ^ 52" by simp
  from non_square_piece_count_rejected [OF ten_not_square this, of env0 w0 im800]
  show ?thesis by (rule conjunct1)
qed

text \<open>
  C6: when some piece of the grid cannot obtain its 2D context, the promise is
  rejected with the error thrown by \<^verbatim>\<open>createPieceCanvas\<close>; when every piece
  obtains one, it resolves with \<open>N * N\<close> piece images. A resolved promise always
  carries the pieces of a whole grid, the square of the accepted grid size, and
  for a piece count below \<open>2 ^ 52\<close> as many pieces as the piece count.
\<close>

theorem rasterization_failure_rejects_batch:
  "((\<exists>k<N * N. \<not> getContext env (canvases w + k)) \<longrightarrow>
      fst (createJigsawPieces env w (Some im) (int (N * N))) =
        Inl (Error ''Could not get canvas context.''))
   \<and> ((\<forall>k<N * N. getContext env (canvases w + k)) \<longrightarrow>
      (\<exists>ps. fst (createJigsawPieces env w (Some im) (int (N * N))) = Inr ps
            \<and> length ps = N * N))
   \<and> (\<forall>ps. fst (createJigsawPieces env w decoded pieceCount) = Inr ps \<longrightarrow>
         (\<exists>n. sqrt_integer pieceCount = Some n \<and> length ps = n * n)
         \<and> (pieceCount < 2 ^ 52 \<longrightarrow> pieceCount = int (length ps)))"
proof -
  have A: "fst (createJigsawPieces env w (Some im) (int (N * N))) =
        Inl (Error ''Could not get canvas context.'')"
    if "\<exists>k<N * N. \<not> getContext env (canvases w + k)"
  proof -
    from that obtain k where "k < N * N" and "\<forall>j<k. getContext env (canvases w + j)"
      and "\<not> getContext env (canvases w + k)"
      by (rule first_failure)
    from createJigsawPieces_fail [OF this, of im]
    show ?thesis by (simp only: fst_conv)
  qed
  have B: "\<exists>ps. fst (createJigsawPieces env w (Some im) (int (N * N))) = Inr ps
            \<and> length ps = N * N"
    if "\<forall>k<N * N. getContext env (canvases w + k)"
    using createJigsawPieces_ok [OF that, of im] by (simp only: fst_conv) simp
  have C: "(\<exists>n. sqrt_integer pieceCount = Some n \<and> length ps = n * n)
         \<and> (pieceCount < 2 ^ 52 \<longrightarrow> pieceCount = int (length ps))"
    if r: "fst (createJigsawPieces env w decoded pieceCount) = Inr ps" for ps
  proof -
    from r obtain im' where d: "decoded = Some im'"
      by (cases decoded) (simp_all add: createJigsawPieces_def)
    from r d obtain n where s: "sqrt_integer pieceCount = Some n"
      by (cases "sqrt_integer pieceCount") (simp_all add: createJigsawPieces_def)
    have ok: "\<forall>k<n * n. getContext env (canvases w + k)"
    proof (rule ccontr)
      assume "\<not> (\<forall>k<n * n. getContext env (canvases w + k))"
      then obtain k where "k < n * n" and "\<forall>j<k. getContext env (canvases w + j)"
        and "\<not> getContext env (canvases w + k)"
        by (rule first_failure')
      from createJigsawPieces_sqrt_fail [OF s this, of im']
      have "fst (createJigsawPieces env w (Some im') pieceCount) =
          Inl (Error ''Could not get canvas context.'')"
        by (simp only: fst_conv)
      with r d show False by simp
    qed
    have len: "length ps = n * n"
      using r d createJigsawPieces_sqrt_ok [OF s ok, of im'] by auto
    have "pieceCount = int (length ps)" if "pieceCount < 2 ^ 52"
      using sqrt_integer_exact [OF that s] len by simp
    with s len show ?thesis by blast
  qed
  from A B C show ?thesis by blast
qed


theorem rasterization_failure_rejects_batch_witness:
  "\<not> getContext env1 (canvases w0 + 2)
   \<and> fst (createJigsawPieces env1 w0 (Some im800) (int (2 * 2))) =
       Inl (Error ''Could not get canvas context.'')
   \<and> getContext env0 = (\<lambda>k. True)
   \<and> (\<exists>ps. fst (createJigsawPieces env0 w0 (Some im800) (int (2 * 2))) = Inr ps
          \<and> length ps = 2 * 2 \<and> int (2 * 2) = int (length ps))"
proof -
  have f: "\<not> getContext env1 (canvases w0 + 2)" by (simp add: env1_def w0_def)
  have "(2::nat) < 2 * 2" by simp
  with f have h1: "\<exists>k<2 * 2. \<not> getContext env1 (canvases w0 + k)" by blast
  have h0: "\<forall>k<2 * 2. getContext env0 (canvases w0 + k)" by (simp add: env0_def)
  note t1 = rasterization_failure_rejects_batch [of 2 env1 w0 im800 "Some im800" "int (2 * 2)"]
  note t0 = rasterization_failure_rejects_batch [of 2 env0 w0 im800 "Some im800" "int (2 * 2)"]
  note a = t1 [THEN conjunct1, THEN mp, OF h1]
  from t0 [THEN conjunct2, THEN conjunct1, THEN mp, OF h0] obtain ps where
    ps: "fst (createJigsawPieces env0 w0 (Some im800) (int (2 * 2))) = Inr ps" "length ps = 2 * 2"
    by (elim exE conjE)
  note c = t0 [THEN conjunct2, THEN conjunct2, THEN spec, THEN mp, OF ps(1), THEN conjunct2]
  have "int (2 * 2) < 2 ^ 52" by simp
  with c have "int (2 * 2) = int (length ps)" by (rule mp)
  with ps have e: "\<exists>ps. fst (createJigsawPieces env0 w0 (Some im800) (int (2 * 2))) = Inr ps
          \<and> length ps = 2 * 2 \<and> int (2 * 2) = int (length ps)"
    by (intro exI [of _ ps] conjI)
  have g: "getContext env0 = (\<lambda>k. True)" by (simp add: env0_def)
  from f a g e show ?thesis by (intro conjI)
qed

text \<open>
  C9: the validation accepts the piece counts 0 and 1. With piece count 0 the
  promise resolves with the empty list and nothing is drawn. With piece count 1,
  when the canvas obtains its context, it resolves with exactly one piece, cut
  from the whole image, whose four sides are FLAT.
\<close>

theorem piece_counts_zero_and_one_accepted:
  "sqrt_integer 0 = Some 0 \<and> sqrt_integer 1 = Some 1
   \<and> createJigsawPieces env w (Some im) 0 = (Inr [], w)
   \<and> (getContext env (canvases w) \<longrightarrow>
        createJigsawPieces env w (Some im) 1 =
          (Inr [renderPiece im 0 0 (real (width im)) (real (height im))
                  \<lparr>top_side = FLAT, right_side = FLAT, bottom_side = FLAT, left_side = FLAT\<rparr>],
           w\<lparr>canvases := Suc (canvases w)\<rparr>))"
proof (intro conjI impI)
  show "sqrt_integer 0 = Some 0" using sqrt_integer_square [of 0] by simp
  show "sqrt_integer 1 = Some 1" using sqrt_integer_square [of 1] by simp
  have "\<forall>k<0 * 0. getContext env (canvases w + k)" by simp
  from createJigsawPieces_ok [OF this, of im]
  show "createJigsawPieces env w (Some im) 0 = (Inr [], w)" by simp
next
  assume "getContext env (canvases w)"
  then have "\<forall>k<1 * 1. getContext env (canvases w + k)" by simp
  from createJigsawPieces_ok [OF this, of im]
  show "createJigsawPieces env w (Some im) 1 =
          (Inr [renderPiece im 0 0 (real (width im)) (real (height im))
                  \<lparr>top_side = FLAT, right_side = FLAT, bottom_side = FLAT, left_side = FLAT\<rparr>],
           w\<lparr>canvases := Suc (canvases w)\<rparr>)"
    by (simp add: cell_def sourceX_def sourceY_def pieceW_def pieceH_def shape_def
        onload_locals_fields)
qed


theorem piece_counts_zero_and_one_accepted_witness:
  "getContext env0 (canvases w0)
   \<and> createJigsawPieces env0 w0 (Some im800) 1 =
       (Inr [renderPiece im800 0 0 (real (width im800)) (real (height im800))
               \<lparr>top_side = FLAT, right_side = FLAT, bottom_side = FLAT, left_side = FLAT\<rparr>],
        w0\<lparr>canvases := Suc (canvases w0)\<rparr>)"
proof -
  have h: "getContext env0 (canvases w0)" by (simp add: env0_def)
  with piece_counts_zero_and_one_accepted [of env0 w0 im800] show ?thesis by blast
qed

section \<open>The pixel partition\<close>

text \<open>
  C2: for every image width \<open>W\<close> and height \<open>H\<close> and every grid size \<open>N \<ge> 2\<close>,
  column \<open>x\<close> gets the width \<open>W div N + 1\<close> if \<open>x < W mod N\<close> and \<open>W div N\<close>
  otherwise, row \<open>y\<close> gets the height \<open>H div N + 1\<close> if \<open>y < H mod N\<close> and
  \<open>H div N\<close> otherwise; the \<open>N\<close> widths sum to \<open>W\<close> and the \<open>N\<close> heights to \<open>H\<close>.
\<close>

theorem partition_is_exact:
  assumes "2 \<le> N" and "L = fst (onload_locals env w im N)"
  shows "(\<forall>x<N. pieceW L x = (if x < width im mod N then width im div N + 1 else width im div N))
       \<and> (\<forall>y<N. pieceH L y = (if y < height im mod N then height im div N + 1 else height im div N))
       \<and> (\<Sum>x<N. pieceW L x) = width im
       \<and> (\<Sum>y<N. pieceH L y) = height im"
proof -
  from assms(1) have n: "0 < N" by simp
  have a: "pieceW L x = (if x < width im mod N then width im div N + 1 else width im div N)" for x
    by (simp add: assms(2) pieceW_onload)
  have b: "pieceH L y = (if y < height im mod N then height im div N + 1 else height im div N)" for y
    by (simp add: assms(2) pieceH_onload)
  have c: "(\<Sum>x<N. pieceW L x) = width im"
    unfolding assms(2) by (rule sum_pieceW [OF n])
  have d: "(\<Sum>y<N. pieceH L y) = height im"
    unfolding assms(2) by (rule sum_pieceH [OF n])
  from a b c d show ?thesis by blast
qed

theorem partition_is_exact_witness:
  "(2::nat) \<le> 3
   \<and> pieceW (fst (onload_locals env0 w0 im802 3)) 0 = 268
   \<and> pieceW (fst (onload_locals env0 w0 im802 3)) 1 = 267
   \<and> pieceH (fst (onload_locals env0 w0 im802 3)) 2 = 267
   \<and> (\<Sum>x<3. pieceW (fst (onload_locals env0 w0 im802 3)) x) = 802
   \<and> (\<Sum>y<3. pieceH (fst (onload_locals env0 w0 im802 3)) y) = 802"
proof -
  let ?L = "fst (onload_locals env0 w0 im802 3)"
  have h: "(2::nat) \<le> 3" by simp
  note t = partition_is_exact [OF h refl, of env0 w0 im802]
  have m: "width im802 = 802" "height im802 = 802"
    by (simp_all add: im802_def)
  from t have pw: "\<forall>x<3. pieceW ?L x = (if x < 802 mod 3 then 802 div 3 + 1 else 802 div 3)"
    unfolding m by (rule conjunct1)
  from t have ph: "\<forall>y<3. pieceH ?L y = (if y < 802 mod 3 then 802 div 3 + 1 else 802 div 3)"
    unfolding m by blast
  from t have sw: "(\<Sum>x<3. pieceW ?L x) = 802" unfolding m by blast
  from t have sh: "(\<Sum>y<3. pieceH ?L y) = 802" unfolding m by blast
  from pw have "pieceW ?L 0 = 268" "pieceW ?L 1 = 267" by simp_all
  moreover from ph have "pieceH ?L 2 = 267" by simp
  ultimately show ?thesis using h sw sh by blast
qed

text \<open>
  C10: for every grid size \<open>N > 0\<close> and every image, also one narrower or lower
  than the grid: with \<open>W < N\<close> the first \<open>W\<close> columns have width 1 and the others
  width 0 (and the same for the rows when \<open>H < N\<close>); the widths sum to \<open>W\<close> and
  the heights to \<open>H\<close>; when every canvas obtains its context the promise
  resolves, and piece \<open>i\<close> is cut at the prefix sums of the widths and heights
  before its column \<open>i mod N\<close> and row \<open>i div N\<close>; the source rectangles of
  distinct cells are disjoint, and together they are the whole image.
\<close>

theorem narrow_image_partition:
  assumes "0 < N" and "L = fst (onload_locals env w im N)"
  shows "(width im < N \<longrightarrow> (\<forall>x<N. pieceW L x = (if x < width im then 1 else 0)))
       \<and> (height im < N \<longrightarrow> (\<forall>y<N. pieceH L y = (if y < height im then 1 else 0)))
       \<and> (\<Sum>x<N. pieceW L x) = width im
       \<and> (\<Sum>y<N. pieceH L y) = height im
       \<and> ((\<forall>k<N * N. getContext env (canvases w + k)) \<longrightarrow>
            fst (createJigsawPieces env w (Some im) (int (N * N))) =
              Inr (map (\<lambda>i. renderPiece im
                              (real (\<Sum>j<i mod N. pieceW L j)) (real (\<Sum>j<i div N. pieceH L j))
                              (real (pieceW L (i mod N))) (real (pieceH L (i div N)))
                              (shape L (i div N) (i mod N))) [0..<N * N]))
       \<and> (\<forall>y<N. \<forall>x<N. \<forall>y'<N. \<forall>x'<N. (y, x) \<noteq> (y', x') \<longrightarrow>
             sourceRect L y x \<inter> sourceRect L y' x' = {})
       \<and> (\<Union>y<N. \<Union>x<N. sourceRect L y x) = {0..<width im} \<times> {0..<height im}"
proof -
  have a: "pieceW L x = (if x < width im then 1 else 0)" if "width im < N" for x
    using that by (simp add: assms(2) pieceW_onload)
  have b: "pieceH L y = (if y < height im then 1 else 0)" if "height im < N" for y
    using that by (simp add: assms(2) pieceH_onload)
  have c: "(\<Sum>x<N. pieceW L x) = width im"
    unfolding assms(2) by (rule sum_pieceW [OF assms(1)])
  have d: "(\<Sum>y<N. pieceH L y) = height im"
    unfolding assms(2) by (rule sum_pieceH [OF assms(1)])
  have e: "fst (createJigsawPieces env w (Some im) (int (N * N))) =
              Inr (map (\<lambda>i. renderPiece im
                              (real (\<Sum>j<i mod N. pieceW L j)) (real (\<Sum>j<i div N. pieceH L j))
                              (real (pieceW L (i mod N))) (real (pieceH L (i div N)))
                              (shape L (i div N) (i mod N))) [0..<N * N])"
    if "\<forall>k<N * N. getContext env (canvases w + k)"
  proof -
    have "img L = im" by (simp add: assms(2) onload_locals_fields)
    then have "cell L y x = renderPiece im
                (real (\<Sum>j<x. pieceW L j)) (real (\<Sum>j<y. pieceH L j))
                (real (pieceW L x)) (real (pieceH L y)) (shape L y x)" for y x
      by (simp add: cell_def sourceX_def sourceY_def)
    then show ?thesis
      using createJigsawPieces_ok [OF that, of im] by (simp add: assms(2))
  qed
  have f: "sourceRect L y x \<inter> sourceRect L y' x' = {}" if "(y, x) \<noteq> (y', x')" for y x y' x'
  proof (cases "x = x'")
    case False
    then have "{sourceX L x ..< sourceX L x + pieceW L x}
             \<inter> {sourceX L x' ..< sourceX L x' + pieceW L x'} = {}"
      unfolding sourceX_def by (rule intervals_disjoint_neq)
    then show ?thesis by (simp add: sourceRect_def Times_Int_Times)
  next
    case True
    with that have "y \<noteq> y'" by simp
    then have "{sourceY L y ..< sourceY L y + pieceH L y}
             \<inter> {sourceY L y' ..< sourceY L y' + pieceH L y'} = {}"
      unfolding sourceY_def by (rule intervals_disjoint_neq)
    then show ?thesis by (simp add: sourceRect_def Times_Int_Times)
  qed
  have "(\<Union>y<N. \<Union>x<N. sourceRect L y x)
      = (\<Union>x<N. {sourceX L x ..< sourceX L x + pieceW L x})
        \<times> (\<Union>y<N. {sourceY L y ..< sourceY L y + pieceH L y})"
    unfolding sourceRect_def by (rule Union_Times)
  also have "\<dots> = {0..<(\<Sum>x<N. pieceW L x)} \<times> {0..<(\<Sum>y<N. pieceH L y)}"
    unfolding sourceX_def sourceY_def by (simp only: intervals_cover)
  finally have g: "(\<Union>y<N. \<Union>x<N. sourceRect L y x) = {0..<width im} \<times> {0..<height im}"
    by (simp only: c d)
  from a b c d e f g show ?thesis by blast
qed


theorem narrow_image_partition_witness:
  "(0::nat) < 2 \<and> width im1 < 2 \<and> height im1 < 2
   \<and> pieceW (fst (onload_locals env0 w0 im1 2)) 0 = 1
   \<and> pieceW (fst (onload_locals env0 w0 im1 2)) 1 = 0
   \<and> pieceH (fst (onload_locals env0 w0 im1 2)) 0 = 1
   \<and> pieceH (fst (onload_locals env0 w0 im1 2)) 1 = 0
   \<and> getContext env0 = (\<lambda>k. True)
   \<and> (\<exists>ps. fst (createJigsawPieces env0 w0 (Some im1) (int (2 * 2))) = Inr ps)
   \<and> ((0::nat), (0::nat)) \<noteq> (1, 1)
   \<and> sourceRect (fst (onload_locals env0 w0 im1 2)) 0 0
       \<inter> sourceRect (fst (onload_locals env0 w0 im1 2)) 1 1 = {}
   \<and> (\<Union>y<2. \<Union>x<2. sourceRect (fst (onload_locals env0 w0 im1 2)) y x)
       = {0..<width im1} \<times> {0..<height im1}"
proof -
  let ?L = "fst (onload_locals env0 w0 im1 2)"
  have h: "(0::nat) < 2" by simp
  have hw: "width im1 < 2" and hh: "height im1 < 2" by (simp_all add: im1_def)
  have hc: "\<forall>k<2 * 2. getContext env0 (canvases w0 + k)" by (simp add: env0_def)
  have hn: "((0::nat), (0::nat)) \<noteq> (1, 1)" by simp
  note t = narrow_image_partition [where N = 2 and env = env0 and w = w0 and im = im1, OF h refl]
  note t1 = t [THEN conjunct1]
  note t2 = t [THEN conjunct2, THEN conjunct1]
  note t5 = t [THEN conjunct2, THEN conjunct2, THEN conjunct2, THEN conjunct2, THEN conjunct1]
  note t6 = t [THEN conjunct2, THEN conjunct2, THEN conjunct2, THEN conjunct2, THEN conjunct2,
      THEN conjunct1]
  note t7 = t [THEN conjunct2, THEN conjunct2, THEN conjunct2, THEN conjunct2, THEN conjunct2,
      THEN conjunct2]
  from t1 hw have pw: "\<forall>x<2. pieceW ?L x = (if x < width im1 then 1 else 0)" by (rule mp)
  from t2 hh have ph: "\<forall>y<2. pieceH ?L y = (if y < height im1 then 1 else 0)" by (rule mp)
  from t5 hc have "fst (createJigsawPieces env0 w0 (Some im1) (int (2 * 2))) =
      Inr (map (\<lambda>i. renderPiece im1
                   (real (\<Sum>j<i mod 2. pieceW ?L j)) (real (\<Sum>j<i div 2. pieceH ?L j))
                   (real (pieceW ?L (i mod 2))) (real (pieceH ?L (i div 2)))
                   (shape ?L (i div 2) (i mod 2))) [0..<2 * 2])"
    by (rule mp)
  then have r: "\<exists>ps. fst (createJigsawPieces env0 w0 (Some im1) (int (2 * 2))) = Inr ps"
    by (rule exI)
  note dj = t6
  note cv = t7
  from pw have "pieceW ?L 0 = 1" "pieceW ?L 1 = 0" by (simp_all add: im1_def)
  moreover from ph have "pieceH ?L 0 = 1" "pieceH ?L 1 = 0" by (simp_all add: im1_def)
  moreover from dj hn have "sourceRect ?L 0 0 \<inter> sourceRect ?L 1 1 = {}" by simp
  moreover have ge: "getContext env0 = (\<lambda>k. True)" by (simp add: env0_def)
  ultimately show ?thesis using h hw hh r hn cv by (intro conjI)
qed

section \<open>An end-to-end scenario\<close>

text \<open>
  C7: for an 800 by 800 image and piece count 16, when every canvas obtains its
  context, the grid is 4 by 4 and the promise resolves with 16 pieces in
  row-major order, each cut as a 200 by 200 rectangle at the multiples of 200;
  piece 5 is the cell of row 1 and column 1, piece 1 the cell above it and piece
  4 the cell to its left; the top side of piece 5 is the inverse of the bottom
  side of piece 1 and its left side the inverse of the right side of piece 4.
\<close>

theorem scenario_800_by_800_16_pieces:
  assumes "width im = 800" and "height im = 800"
    and "\<forall>k<16. getContext env (canvases w + k)"
    and "L = fst (onload_locals env w im 4)"
  shows "\<exists>ps. fst (createJigsawPieces env w (Some im) 16) = Inr ps
       \<and> gridSize L = 4 \<and> length ps = 16
       \<and> (\<forall>i<16. ps ! i = renderPiece im (real (200 * (i mod 4))) (real (200 * (i div 4))) 200 200
                              (shape L (i div 4) (i mod 4)))
       \<and> ps ! 5 = renderPiece im 200 200 200 200 (shape L 1 1)
       \<and> ps ! 1 = renderPiece im 200 0 200 200 (shape L 0 1)
       \<and> ps ! 4 = renderPiece im 0 200 200 200 (shape L 1 0)
       \<and> (bottom_side (shape L 0 1) = Joint KNOB \<and> top_side (shape L 1 1) = Joint SOCKET
          \<or> bottom_side (shape L 0 1) = Joint SOCKET \<and> top_side (shape L 1 1) = Joint KNOB)
       \<and> (right_side (shape L 1 0) = Joint KNOB \<and> left_side (shape L 1 1) = Joint SOCKET
          \<or> right_side (shape L 1 0) = Joint SOCKET \<and> left_side (shape L 1 1) = Joint KNOB)"
proof -
  define ps where "ps = map (\<lambda>i. cell L (i div 4) (i mod 4)) [0..<4 * 4]"
  have n: "gridSize L = 4" and i: "img L = im"
    by (simp_all add: assms(4) onload_locals_fields)
  have ok: "\<forall>k<4 * 4. getContext env (canvases w + k)" using assms(3) by simp
  have "fst (createJigsawPieces env w (Some im) (int (4 * 4))) = Inr ps"
    using createJigsawPieces_ok [OF ok, of im] by (simp add: ps_def assms(4))
  then have r: "fst (createJigsawPieces env w (Some im) 16) = Inr ps" by simp
  have pw: "pieceW L x = 200" for x
    by (simp add: assms(4) pieceW_onload assms(1))
  have ph: "pieceH L y = 200" for y
    by (simp add: assms(4) pieceH_onload assms(2))
  have c: "cell L y x = renderPiece im (real (200 * x)) (real (200 * y)) 200 200 (shape L y x)"
    for y x
    by (simp add: cell_def sourceX_def sourceY_def pw ph i mult.commute)
  have len: "length ps = 16" by (simp add: ps_def)
  have nth: "ps ! i = renderPiece im (real (200 * (i mod 4))) (real (200 * (i div 4))) 200 200
                              (shape L (i div 4) (i mod 4))" if "i < 16" for i
    using that by (simp add: ps_def c)
  have p5: "ps ! 5 = renderPiece im 200 200 200 200 (shape L 1 1)"
    using nth [of 5] by simp
  have p1: "ps ! 1 = renderPiece im 200 0 200 200 (shape L 0 1)"
    using nth [of 1] by simp
  have p4: "ps ! 4 = renderPiece im 0 200 200 200 (shape L 1 0)"
    using nth [of 4] by simp
  have v: "bottom_side (shape L 0 1) = Joint KNOB \<and> top_side (shape L 1 1) = Joint SOCKET
          \<or> bottom_side (shape L 0 1) = Joint SOCKET \<and> top_side (shape L 1 1) = Joint KNOB"
    using n by (cases "verticalJoints L ! 0 ! 1") (simp_all add: shape_def)
  have hz: "right_side (shape L 1 0) = Joint KNOB \<and> left_side (shape L 1 1) = Joint SOCKET
          \<or> right_side (shape L 1 0) = Joint SOCKET \<and> left_side (shape L 1 1) = Joint KNOB"
    using n by (cases "horizontalJoints L ! 1 ! 0") (simp_all add: shape_def)
  have all: "\<forall>i<16. ps ! i = renderPiece im (real (200 * (i mod 4))) (real (200 * (i div 4)))
                  200 200 (shape L (i div 4) (i mod 4))"
    using nth by (intro allI impI)
  show ?thesis
    by (rule exI [of _ ps]) (intro conjI r n len all p5 p1 p4 v hz)
qed

theorem scenario_800_by_800_16_pieces_witness:
  "width im800 = 800 \<and> height im800 = 800
   \<and> getContext env0 = (\<lambda>k. True)
   \<and> (\<exists>ps. fst (createJigsawPieces env0 w0 (Some im800) 16) = Inr ps
          \<and> length ps = 16
          \<and> ps ! 5 = renderPiece im800 200 200 200 200
                        (shape (fst (onload_locals env0 w0 im800 4)) 1 1))"
proof -
  have a: "width im800 = 800" and b: "height im800 = 800" by (simp_all add: im800_def)
  have c: "\<forall>k<16. getContext env0 (canvases w0 + k)" by (simp add: env0_def)
  from scenario_800_by_800_16_pieces [OF a b c refl]
  obtain ps where "fst (createJigsawPieces env0 w0 (Some im800) 16) = Inr ps"
    and "length ps = 16"
    and "ps ! 5 = renderPiece im800 200 200 200 200
                        (shape (fst (onload_locals env0 w0 im800 4)) 1 1)"
    by (elim exE conjE)
  then have "\<exists>ps. fst (createJigsawPieces env0 w0 (Some im800) 16) = Inr ps
          \<and> length ps = 16
          \<and> ps ! 5 = renderPiece im800 200 200 200 200
                        (shape (fst (onload_locals env0 w0 im800 4)) 1 1)"
    by (intro exI [of _ ps] conjI)
  moreover have "getContext env0 = (\<lambda>k. True)" by (simp add: env0_def)
  ultimately show ?thesis using a b by (intro conjI)
qed

section \<open>The rasterizer\<close>

text \<open>
  Sides of positive length. For every non-FLAT side whose start point \<open>S\<close> and
  end point \<open>E\<close> differ, the path is a straight segment from \<open>S\<close> to the point 20\% of the way
  to \<open>E\<close>, one cubic curve to the point 80\% of the way, and a straight segment
  to \<open>E\<close>. The two control points are the 20\% and 80\% points moved by the side
  vector rotated by a quarter turn, \<open>(dy, - dx)\<close>, scaled by \<open>KNOB_RATIO = 0.2\<close>,
  with the sign \<open>s\<close> negated for SOCKET: the offset is perpendicular to the side
  and its length is \<open>KNOB_RATIO\<close> times the length of the side. The outline
  starts at the top-left corner and applies this to the top, right, bottom and
  left side in this order; on a piece of positive width and height a KNOB moves
  the control points above the top side, right of the right side, below the
  bottom side and left of the left side.
\<close>

lemma knob_and_socket_outline:
  assumes "(startX, startY) \<noteq> (endX, endY)"
    and "s = (if j = KNOB then 1 else - 1)"
  shows "drawSide startX startY endX endY (Joint j) =
          [LineTo (startX + (endX - startX) * 0.2) (startY + (endY - startY) * 0.2),
           BezierCurveTo
             (Some (startX + (endX - startX) * 0.2 + s * KNOB_RATIO * (endY - startY)))
             (Some (startY + (endY - startY) * 0.2 - s * KNOB_RATIO * (endX - startX)))
             (Some (startX + (endX - startX) * 0.8 + s * KNOB_RATIO * (endY - startY)))
             (Some (startY + (endY - startY) * 0.8 - s * KNOB_RATIO * (endX - startX)))
             (startX + (endX - startX) * 0.8) (startY + (endY - startY) * 0.8),
           LineTo endX endY]
       \<and> KNOB_RATIO = 0.2
       \<and> s * KNOB_RATIO * (endY - startY) * (endX - startX)
           + - (s * KNOB_RATIO * (endX - startX)) * (endY - startY) = 0
       \<and> sqrt ((s * KNOB_RATIO * (endY - startY)) * (s * KNOB_RATIO * (endY - startY))
               + (- (s * KNOB_RATIO * (endX - startX))) * (- (s * KNOB_RATIO * (endX - startX))))
           = KNOB_RATIO * sqrt ((endX - startX) * (endX - startX) + (endY - startY) * (endY - startY))
       \<and> (\<exists>pre post. calls (renderPiece im sx sy pw ph sh) =
             pre @ [MoveTo 0 0]
             @ drawSide 0 0 pw 0 (top_side sh)
             @ drawSide pw 0 pw ph (right_side sh)
             @ drawSide pw ph 0 ph (bottom_side sh)
             @ drawSide 0 ph 0 0 (left_side sh)
             @ ClosePath # post)
       \<and> (0 < pw \<and> 0 < ph \<longrightarrow>
            drawSide 0 0 pw 0 (Joint j) =
              [LineTo (pw * 0.2) 0,
               BezierCurveTo (Some (pw * 0.2)) (Some (- (s * KNOB_RATIO * pw)))
                             (Some (pw * 0.8)) (Some (- (s * KNOB_RATIO * pw))) (pw * 0.8) 0,
               LineTo pw 0]
          \<and> drawSide pw 0 pw ph (Joint j) =
              [LineTo pw (ph * 0.2),
               BezierCurveTo (Some (pw + s * KNOB_RATIO * ph)) (Some (ph * 0.2))
                             (Some (pw + s * KNOB_RATIO * ph)) (Some (ph * 0.8)) pw (ph * 0.8),
               LineTo pw ph]
          \<and> drawSide pw ph 0 ph (Joint j) =
              [LineTo (pw - pw * 0.2) ph,
               BezierCurveTo (Some (pw - pw * 0.2)) (Some (ph + s * KNOB_RATIO * pw))
                             (Some (pw - pw * 0.8)) (Some (ph + s * KNOB_RATIO * pw)) (pw - pw * 0.8) ph,
               LineTo 0 ph]
          \<and> drawSide 0 ph 0 0 (Joint j) =
              [LineTo 0 (ph - ph * 0.2),
               BezierCurveTo (Some (- (s * KNOB_RATIO * ph))) (Some (ph - ph * 0.2))
                             (Some (- (s * KNOB_RATIO * ph))) (Some (ph - ph * 0.8)) 0 (ph - ph * 0.8),
               LineTo 0 0])"
proof -
  have s: "s = 1 \<or> s = - 1" using assms(2) by simp
  have A: "drawSide startX startY endX endY (Joint j) =
          [LineTo (startX + (endX - startX) * 0.2) (startY + (endY - startY) * 0.2),
           BezierCurveTo
             (Some (startX + (endX - startX) * 0.2 + s * KNOB_RATIO * (endY - startY)))
             (Some (startY + (endY - startY) * 0.2 - s * KNOB_RATIO * (endX - startX)))
             (Some (startX + (endX - startX) * 0.8 + s * KNOB_RATIO * (endY - startY)))
             (Some (startY + (endY - startY) * 0.8 - s * KNOB_RATIO * (endX - startX)))
             (startX + (endX - startX) * 0.8) (startY + (endY - startY) * 0.8),
           LineTo endX endY]"
    unfolding assms(2) by (rule drawSide_Joint [OF assms(1)])
  have B: "KNOB_RATIO = 0.2" by (simp add: KNOB_RATIO_def)
  have E: "\<exists>pre post. calls (renderPiece im sx sy pw ph sh) =
             pre @ [MoveTo 0 0]
             @ drawSide 0 0 pw 0 (top_side sh)
             @ drawSide pw 0 pw ph (right_side sh)
             @ drawSide pw ph 0 ph (bottom_side sh)
             @ drawSide 0 ph 0 0 (left_side sh)
             @ ClosePath # post"
    by (rule exI [of _ "[Translate (pw * KNOB_RATIO) (ph * KNOB_RATIO), BeginPath]"], rule exI)
      (simp add: renderPiece_def Let_def)
  have F: "drawSide 0 0 pw 0 (Joint j) =
              [LineTo (pw * 0.2) 0,
               BezierCurveTo (Some (pw * 0.2)) (Some (- (s * KNOB_RATIO * pw)))
                             (Some (pw * 0.8)) (Some (- (s * KNOB_RATIO * pw))) (pw * 0.8) 0,
               LineTo pw 0]" if "0 < pw"
  proof -
    from that have "((0::real), (0::real)) \<noteq> (pw, 0)" by simp
    from drawSide_Joint [OF this, of j] show ?thesis by (simp add: assms(2))
  qed
  have G: "drawSide pw 0 pw ph (Joint j) =
              [LineTo pw (ph * 0.2),
               BezierCurveTo (Some (pw + s * KNOB_RATIO * ph)) (Some (ph * 0.2))
                             (Some (pw + s * KNOB_RATIO * ph)) (Some (ph * 0.8)) pw (ph * 0.8),
               LineTo pw ph]" if "0 < ph"
  proof -
    from that have "(pw, (0::real)) \<noteq> (pw, ph)" by simp
    from drawSide_Joint [OF this, of j] show ?thesis by (simp add: assms(2))
  qed
  have H: "drawSide pw ph 0 ph (Joint j) =
              [LineTo (pw - pw * 0.2) ph,
               BezierCurveTo (Some (pw - pw * 0.2)) (Some (ph + s * KNOB_RATIO * pw))
                             (Some (pw - pw * 0.8)) (Some (ph + s * KNOB_RATIO * pw)) (pw - pw * 0.8) ph,
               LineTo 0 ph]" if "0 < pw"
  proof -
    from that have "(pw, ph) \<noteq> ((0::real), ph)" by simp
    from drawSide_Joint [OF this, of j] show ?thesis by (simp add: assms(2))
  qed
  have I: "drawSide 0 ph 0 0 (Joint j) =
              [LineTo 0 (ph - ph * 0.2),
               BezierCurveTo (Some (- (s * KNOB_RATIO * ph))) (Some (ph - ph * 0.2))
                             (Some (- (s * KNOB_RATIO * ph))) (Some (ph - ph * 0.8)) 0 (ph - ph * 0.8),
               LineTo 0 0]" if "0 < ph"
  proof -
    from that have "((0::real), ph) \<noteq> (0, (0::real))" by simp
    from drawSide_Joint [OF this, of j] show ?thesis by (simp add: assms(2))
  qed
  have D': "sqrt ((s * KNOB_RATIO * (endY - startY)) * (s * KNOB_RATIO * (endY - startY))
               + (- (s * KNOB_RATIO * (endX - startX))) * (- (s * KNOB_RATIO * (endX - startX))))
           = KNOB_RATIO * sqrt ((endX - startX) * (endX - startX) + (endY - startY) * (endY - startY))"
    by (rule offset_length [OF s])
  have C': "s * KNOB_RATIO * (endY - startY) * (endX - startX)
           + - (s * KNOB_RATIO * (endX - startX)) * (endY - startY) = 0"
    by (rule offset_perpendicular)
  show ?thesis
    by (intro conjI impI A B C' D' E; (elim conjE)?; (rule F G H I)?; assumption?)
qed


lemma knob_and_socket_outline_at_200:
  "((0::real), (0::real)) \<noteq> (200, 0) \<and> (0::real) < 200
   \<and> drawSide 0 0 200 0 (Joint KNOB) =
       [LineTo 40 0, BezierCurveTo (Some 40) (Some (- 40)) (Some 160) (Some (- 40)) 160 0,
        LineTo 200 0]
   \<and> drawSide 200 0 200 200 (Joint SOCKET) =
       [LineTo 200 40, BezierCurveTo (Some 160) (Some 40) (Some 160) (Some 160) 200 160,
        LineTo 200 200]"
proof -
  have h: "((0::real), (0::real)) \<noteq> (200, 0)" by simp
  have p: "(0::real) < 200 \<and> (0::real) < 200" by simp
  have k: "(1::real) = (if KNOB = KNOB then 1 else - 1)" by simp
  have c: "(- 1::real) = (if SOCKET = KNOB then 1 else - 1)" by simp
  note t = knob_and_socket_outline [OF h k, of im800 0 0 200 200
      "\<lparr>top_side = FLAT, right_side = FLAT, bottom_side = FLAT, left_side = FLAT\<rparr>"]
  note u = knob_and_socket_outline [OF h c, of im800 0 0 200 200
      "\<lparr>top_side = FLAT, right_side = FLAT, bottom_side = FLAT, left_side = FLAT\<rparr>"]
  note t6 = t [THEN conjunct2, THEN conjunct2, THEN conjunct2, THEN conjunct2, THEN conjunct2,
      THEN mp, OF p]
  note u6 = u [THEN conjunct2, THEN conjunct2, THEN conjunct2, THEN conjunct2, THEN conjunct2,
      THEN mp, OF p]
  have a: "drawSide 0 0 200 0 (Joint KNOB) =
       [LineTo 40 0, BezierCurveTo (Some 40) (Some (- 40)) (Some 160) (Some (- 40)) 160 0,
        LineTo 200 0]"
    using t6 [THEN conjunct1] by (simp add: KNOB_RATIO_def)
  have b: "drawSide 200 0 200 200 (Joint SOCKET) =
       [LineTo 200 40, BezierCurveTo (Some 160) (Some 40) (Some 160) (Some 160) 200 160,
        LineTo 200 200]"
    using u6 [THEN conjunct2, THEN conjunct1] by (simp add: KNOB_RATIO_def)
  from h a b show ?thesis by simp
qed

text \<open>
  C5: on every non-FLAT side the two control points of the curve should be the
  20\% and 80\% points moved along the normal by \<open>KNOB_RATIO\<close> times the length
  of the side. On a side of length zero, where these are the point itself, the
  code divides the normal by its length, \<^verbatim>\<open>0 / 0\<close>, and passes \<^verbatim>\<open>NaN\<close> as
  the four coordinates of the control points. Such a side is drawn for the last
  piece of a 2 by 2 puzzle cut from a single pixel.
\<close>

theorem zero_length_side_control_points:
  "drawSide 0 0 0 0 (Joint KNOB) = [LineTo 0 0, BezierCurveTo None None None None 0 0, LineTo 0 0]
   \<and> drawSide 0 0 0 0 (Joint KNOB)
       \<noteq> [LineTo 0 0, BezierCurveTo (Some 0) (Some 0) (Some 0) (Some 0) 0 0, LineTo 0 0]
   \<and> BezierCurveTo None None None None 0 0
       \<in> set (calls (projr (fst (createJigsawPieces env0 w0 (Some im1) 4)) ! 3))"
proof -
  let ?L = "fst (onload_locals env0 w0 im1 2)"
  have a: "drawSide 0 0 0 0 (Joint KNOB) =
      [LineTo 0 0, BezierCurveTo None None None None 0 0, LineTo 0 0]"
    by (rule drawSide_degenerate)
  then have b: "drawSide 0 0 0 0 (Joint KNOB)
       \<noteq> [LineTo 0 0, BezierCurveTo (Some 0) (Some 0) (Some 0) (Some 0) 0 0, LineTo 0 0]"
    by simp
  have ok: "\<forall>k<2 * 2. getContext env0 (canvases w0 + k)" by (simp add: env0_def)
  have "fst (createJigsawPieces env0 w0 (Some im1) (int (2 * 2))) =
          Inr (map (\<lambda>i. cell ?L (i div 2) (i mod 2)) [0..<2 * 2])"
    using createJigsawPieces_ok [OF ok, of im1] by (simp only: fst_conv)
  then have "projr (fst (createJigsawPieces env0 w0 (Some im1) 4)) ! 3 = cell ?L 1 1"
    by simp
  moreover have "pieceW ?L 1 = 0" by (simp add: pieceW_onload im1_def)
  moreover obtain j where "top_side (shape ?L 1 1) = Joint j" by (simp add: shape_def)
  ultimately have "BezierCurveTo None None None None 0 0
       \<in> set (calls (projr (fst (createJigsawPieces env0 w0 (Some im1) 4)) ! 3))"
    by (simp add: cell_def renderPiece_degenerate_top)
  with a b show ?thesis by (intro conjI)
qed

text \<open>
  C8, amended: for every piece of dimensions \<open>(pw, ph)\<close> the code assigns
  \<open>pw * (1 + 2 * KNOB_RATIO)\<close> and \<open>ph * (1 + 2 * KNOB_RATIO)\<close>, with
  \<open>KNOB_RATIO = 0.2\<close>, to the width and height of the canvas. These are integer
  attributes: the drawing surface has the integer parts of the two numbers as
  its width and height, less than one pixel below them and equal to them when
  they are integers. The first call on the context translates the origin by
  the margin \<open>(KNOB_RATIO * pw, KNOB_RATIO * ph)\<close>, the path starts at the
  translated origin, and no later call translates again, so the margin is
  \<open>KNOB_RATIO * pw\<close> on the left and \<open>KNOB_RATIO * ph\<close> above, and what the
  integer width and height leave on the right and below.
  \<^verbatim>\<open>createPieceCanvas\<close> returns this canvas when the context is obtained and
  throws otherwise.
\<close>

theorem canvas_padded_by_knob_ratio:
  assumes "0 \<le> pw" and "0 \<le> ph"
    and "pw * (1 + 2 * KNOB_RATIO) < 2 ^ 31" and "ph * (1 + 2 * KNOB_RATIO) < 2 ^ 31"
  shows "KNOB_RATIO = 0.2
   \<and> canvas_width (renderPiece im sx sy pw ph sh) = nat \<lfloor>pw * (1 + 2 * KNOB_RATIO)\<rfloor>
   \<and> canvas_height (renderPiece im sx sy pw ph sh) = nat \<lfloor>ph * (1 + 2 * KNOB_RATIO)\<rfloor>
   \<and> pw * (1 + 2 * KNOB_RATIO) - 1 < real (canvas_width (renderPiece im sx sy pw ph sh))
   \<and> real (canvas_width (renderPiece im sx sy pw ph sh)) \<le> pw * (1 + 2 * KNOB_RATIO)
   \<and> ph * (1 + 2 * KNOB_RATIO) - 1 < real (canvas_height (renderPiece im sx sy pw ph sh))
   \<and> real (canvas_height (renderPiece im sx sy pw ph sh)) \<le> ph * (1 + 2 * KNOB_RATIO)
   \<and> (pw * (1 + 2 * KNOB_RATIO) \<in> \<int> \<longrightarrow>
        real (canvas_width (renderPiece im sx sy pw ph sh)) = pw * (1 + 2 * KNOB_RATIO))
   \<and> (ph * (1 + 2 * KNOB_RATIO) \<in> \<int> \<longrightarrow>
        real (canvas_height (renderPiece im sx sy pw ph sh)) = ph * (1 + 2 * KNOB_RATIO))
   \<and> (\<exists>rest. calls (renderPiece im sx sy pw ph sh) =
               Translate (KNOB_RATIO * pw) (KNOB_RATIO * ph) # BeginPath # MoveTo 0 0 # rest
             \<and> (\<forall>a b. Translate a b \<notin> set rest))
   \<and> (getContext env (canvases w) \<longrightarrow>
        fst (createPieceCanvas env w im sx sy pw ph sh) = Inr (renderPiece im sx sy pw ph sh))
   \<and> (\<not> getContext env (canvases w) \<longrightarrow>
        fst (createPieceCanvas env w im sx sy pw ph sh) = Inl (Error ''Could not get canvas context.''))"
proof -
  have A: "KNOB_RATIO = 0.2" by (simp add: KNOB_RATIO_def)
  note B = canvas_width_renderPiece [OF assms(1,3), of im sx sy ph sh]
  note C = canvas_height_renderPiece [OF assms(2,4), of im sx sy pw sh]
  have xw: "0 \<le> pw * (1 + 2 * KNOB_RATIO)" using assms(1) by (simp add: KNOB_RATIO_def)
  have xh: "0 \<le> ph * (1 + 2 * KNOB_RATIO)" using assms(2) by (simp add: KNOB_RATIO_def)
  note bw = nat_floor_bounds [OF xw, folded B]
  note bh = nat_floor_bounds [OF xh, folded C]
  have F: "\<exists>rest. calls (renderPiece im sx sy pw ph sh) =
               Translate (KNOB_RATIO * pw) (KNOB_RATIO * ph) # BeginPath # MoveTo 0 0 # rest
             \<and> (\<forall>a b. Translate a b \<notin> set rest)"
    by (rule exI [of _ "drawSide 0 0 pw 0 (top_side sh)
            @ drawSide pw 0 pw ph (right_side sh)
            @ drawSide pw ph 0 ph (bottom_side sh)
            @ drawSide 0 ph 0 0 (left_side sh)
            @ [ClosePath, Save, Clip,
               DrawImage im
                 (sx - pw * KNOB_RATIO) (sy - ph * KNOB_RATIO)
                 (real (set_dimension 300 (pw + 2 * (pw * KNOB_RATIO))))
                 (real (set_dimension 150 (ph + 2 * (ph * KNOB_RATIO))))
                 (- (pw * KNOB_RATIO)) (- (ph * KNOB_RATIO))
                 (real (set_dimension 300 (pw + 2 * (pw * KNOB_RATIO))))
                 (real (set_dimension 150 (ph + 2 * (ph * KNOB_RATIO)))),
               Restore,
               StrokeStyle ''rgba(0, 0, 0, 0.6)'', LineWidth 1.5, Stroke]"])
      (simp add: renderPiece_def Let_def drawSide_no_Translate mult.commute)
  have G: "fst (createPieceCanvas env w im sx sy pw ph sh) = Inr (renderPiece im sx sy pw ph sh)"
    if "getContext env (canvases w)"
    using that by (simp add: createPieceCanvas_def)
  have H: "fst (createPieceCanvas env w im sx sy pw ph sh) = Inl (Error ''Could not get canvas context.'')"
    if "\<not> getContext env (canvases w)"
    using that by (simp add: createPieceCanvas_def)
  from G H show ?thesis
    by (intro conjI impI A B C F bw [THEN conjunct1] bw [THEN conjunct2, THEN conjunct1]
        bh [THEN conjunct1] bh [THEN conjunct2, THEN conjunct1]
        bw [THEN conjunct2, THEN conjunct2, THEN mp] bh [THEN conjunct2, THEN conjunct2, THEN mp])
qed

theorem canvas_padded_by_knob_ratio_witness:
  "(0::real) \<le> 200 \<and> (200::real) * (1 + 2 * KNOB_RATIO) < 2 ^ 31
   \<and> (200::real) * (1 + 2 * KNOB_RATIO) \<in> \<int>
   \<and> canvas_width (renderPiece im800 200 200 200 200
         \<lparr>top_side = Joint SOCKET, right_side = Joint KNOB,
          bottom_side = Joint KNOB, left_side = Joint SOCKET\<rparr>) = 280
   \<and> real (canvas_width (renderPiece im800 200 200 200 200
         \<lparr>top_side = Joint SOCKET, right_side = Joint KNOB,
          bottom_side = Joint KNOB, left_side = Joint SOCKET\<rparr>))
       = 200 * (1 + 2 * KNOB_RATIO)
   \<and> getContext env0 (canvases w0)
   \<and> fst (createPieceCanvas env0 w0 im800 200 200 200 200
            \<lparr>top_side = Joint SOCKET, right_side = Joint KNOB,
             bottom_side = Joint KNOB, left_side = Joint SOCKET\<rparr>)
       = Inr (renderPiece im800 200 200 200 200
               \<lparr>top_side = Joint SOCKET, right_side = Joint KNOB,
                bottom_side = Joint KNOB, left_side = Joint SOCKET\<rparr>)
   \<and> \<not> getContext env1 (canvases (w0\<lparr>canvases := 2\<rparr>))
   \<and> fst (createPieceCanvas env1 (w0\<lparr>canvases := 2\<rparr>) im800 200 200 200 200
            \<lparr>top_side = Joint SOCKET, right_side = Joint KNOB,
             bottom_side = Joint KNOB, left_side = Joint SOCKET\<rparr>)
       = Inl (Error ''Could not get canvas context.'')"
proof -
  let ?sh = "\<lparr>top_side = Joint SOCKET, right_side = Joint KNOB,
              bottom_side = Joint KNOB, left_side = Joint SOCKET\<rparr>"
  have v: "(200::real) * (1 + 2 * KNOB_RATIO) = 280" by (simp add: KNOB_RATIO_def)
  have p0: "(0::real) \<le> 200" by simp
  have p1: "(200::real) * (1 + 2 * KNOB_RATIO) < 2 ^ 31" unfolding v by simp
  have z: "(200::real) * (1 + 2 * KNOB_RATIO) \<in> \<int>" unfolding v by simp
  have h: "getContext env0 (canvases w0)" by (simp add: env0_def)
  have g: "\<not> getContext env1 (canvases (w0\<lparr>canvases := 2\<rparr>))" by (simp add: env1_def)
  note t = canvas_padded_by_knob_ratio [OF p0 p0 p1 p1, of im800 200 200 ?sh env0 w0]
  note u = canvas_padded_by_knob_ratio [OF p0 p0 p1 p1, of im800 200 200 ?sh env1
      "w0\<lparr>canvases := 2\<rparr>"]
  note wf = t [THEN conjunct2, THEN conjunct1]
  note wz = t [THEN conjunct2, THEN conjunct2, THEN conjunct2, THEN conjunct2,
      THEN conjunct2, THEN conjunct2, THEN conjunct2, THEN conjunct1]
  note ok = t [THEN conjunct2, THEN conjunct2, THEN conjunct2, THEN conjunct2,
      THEN conjunct2, THEN conjunct2, THEN conjunct2, THEN conjunct2,
      THEN conjunct2, THEN conjunct2, THEN conjunct1]
  note ko = u [THEN conjunct2, THEN conjunct2, THEN conjunct2, THEN conjunct2,
      THEN conjunct2, THEN conjunct2, THEN conjunct2, THEN conjunct2,
      THEN conjunct2, THEN conjunct2, THEN conjunct2]
  have w280: "canvas_width (renderPiece im800 200 200 200 200 ?sh) = 280"
    unfolding wf v by simp
  from p0 p1 z w280 wz [THEN mp, OF z] h ok [THEN mp, OF h] g ko [THEN mp, OF g]
  show ?thesis by (intro conjI)
qed

text \<open>
  C8 as stated fails wherever \<open>pw * (1 + 2 * KNOB_RATIO)\<close> is not an integer:
  the second piece of the first row of an 802 by 802 image cut into 9 pieces is
  267 by 268, and its canvas is 373 by 375, not 373.8 by 375.2.
\<close>

theorem canvas_truncated_counterexample:
  "canvas_width (renderPiece im802 268 0 267 268
      \<lparr>top_side = FLAT, right_side = Joint KNOB, bottom_side = Joint KNOB,
       left_side = Joint SOCKET\<rparr>) = 373
   \<and> (373::real) \<noteq> 267 * (1 + 2 * KNOB_RATIO)
   \<and> canvas_height (renderPiece im802 268 0 267 268
      \<lparr>top_side = FLAT, right_side = Joint KNOB, bottom_side = Joint KNOB,
       left_side = Joint SOCKET\<rparr>) = 375
   \<and> (375::real) \<noteq> 268 * (1 + 2 * KNOB_RATIO)"
proof -
  have w: "(267::real) * (1 + 2 * KNOB_RATIO) = 1869 / 5"
    and h: "(268::real) * (1 + 2 * KNOB_RATIO) = 1876 / 5"
    by (simp_all add: KNOB_RATIO_def)
  have fw: "\<lfloor>(1869::real) / 5\<rfloor> = 373" and fh: "\<lfloor>(1876::real) / 5\<rfloor> = 375"
    by (simp_all add: floor_eq_iff)
  have p0: "(0::real) \<le> 267" "(0::real) \<le> 268" by simp_all
  have p1: "(267::real) * (1 + 2 * KNOB_RATIO) < 2 ^ 31" unfolding w by simp
  have p2: "(268::real) * (1 + 2 * KNOB_RATIO) < 2 ^ 31" unfolding h by simp
  have a: "canvas_width (renderPiece im802 268 0 267 268
      \<lparr>top_side = FLAT, right_side = Joint KNOB, bottom_side = Joint KNOB,
       left_side = Joint SOCKET\<rparr>) = 373"
    unfolding canvas_width_renderPiece [OF p0(1) p1] w fw by simp
  have b: "canvas_height (renderPiece im802 268 0 267 268
      \<lparr>top_side = FLAT, right_side = Joint KNOB, bottom_side = Joint KNOB,
       left_side = Joint SOCKET\<rparr>) = 375"
    unfolding canvas_height_renderPiece [OF p0(2) p2] h fh by simp
  have c: "(373::real) \<noteq> 267 * (1 + 2 * KNOB_RATIO)" unfolding w by simp
  have d: "(375::real) \<noteq> 268 * (1 + 2 * KNOB_RATIO)" unfolding h by simp
  from a c b d show ?thesis by (intro conjI)
qed

end
